theory Spec2Isabelle
  imports Complex_Main
begin

section \<open>Strings and Python values\<close>

text \<open>
  Strings are lists of 8-bit characters. The MAC addresses, URLs and keywords handled by the
  program are ASCII, and the string functions below are Python's \<^verbatim>\<open>str.upper\<close>,
  \<^verbatim>\<open>str.isalnum\<close>, \<^verbatim>\<open>str.isspace\<close>, \<^verbatim>\<open>str.strip\<close> and
  \<^verbatim>\<open>in\<close> on ASCII text; a character outside ASCII is left alone by \<open>upper\<close> and is
  neither alphanumeric nor white space.
\<close>

definition upper_chr :: "char \<Rightarrow> char" where
  "upper_chr c =
     (let n = (of_char c :: nat) in if 97 \<le> n \<and> n \<le> 122 then char_of (n - 32) else c)"

definition upper :: "string \<Rightarrow> string" where
  "upper s = map upper_chr s"

definition isalnum :: "char \<Rightarrow> bool" where
  "isalnum c =
     (let n = (of_char c :: nat)
      in (48 \<le> n \<and> n \<le> 57) \<or> (65 \<le> n \<and> n \<le> 90) \<or> (97 \<le> n \<and> n \<le> 122))"

definition isspace :: "char \<Rightarrow> bool" where
  "isspace c = (let n = (of_char c :: nat) in (9 \<le> n \<and> n \<le> 13) \<or> (28 \<le> n \<and> n \<le> 32))"

definition strip :: "string \<Rightarrow> string" where
  "strip s = rev (dropWhile isspace (rev (dropWhile isspace s)))"

fun starts_with :: "string \<Rightarrow> string \<Rightarrow> bool" where
  "starts_with s [] = True"
| "starts_with [] (c # cs) = False"
| "starts_with (x # xs) (c # cs) = (x = c \<and> starts_with xs cs)"

text \<open>\<open>contains s sub\<close> is Python's \<^verbatim>\<open>sub in s\<close>.\<close>

fun contains :: "string \<Rightarrow> string \<Rightarrow> bool" where
  "contains [] sub = (sub = [])"
| "contains (x # xs) sub = (starts_with (x # xs) sub \<or> contains xs sub)"

text \<open>
  A Python exception is a value; \<open>exn + 'a\<close> is the outcome of a call that may raise
  (\<open>Inl\<close> the exception). Every exception that occurs below is an instance of
  \<^verbatim>\<open>Exception\<close>, which is what the program's handlers catch.
\<close>

datatype exn = Exception string

text \<open>
  The objects that \<^verbatim>\<open>response.json()\<close> builds, and with them the values that flow out of
  \<^verbatim>\<open>_lookup_online\<close> (Python does not enforce the annotation \<^verbatim>\<open>Optional[str]\<close>).
  \<open>truthy\<close> is Python's truth test; \<open>dict_get d k dflt\<close> is \<^verbatim>\<open>d.get(k, dflt)\<close>, which
  raises \<^verbatim>\<open>AttributeError\<close> when \<open>d\<close> is not a dict.
\<close>

datatype pyval =
    PNone
  | PBool bool
  | PNum real
  | PStr string
  | PList "pyval list"
  | PDict "(string \<times> pyval) list"

fun truthy :: "pyval \<Rightarrow> bool" where
  "truthy PNone = False"
| "truthy (PBool b) = b"
| "truthy (PNum x) = (x \<noteq> 0)"
| "truthy (PStr s) = (s \<noteq> [])"
| "truthy (PList xs) = (xs \<noteq> [])"
| "truthy (PDict kvs) = (kvs \<noteq> [])"

fun dict_get :: "pyval \<Rightarrow> string \<Rightarrow> pyval \<Rightarrow> exn + pyval" where
  "dict_get (PDict kvs) k dflt = Inr (case map_of kvs k of Some v \<Rightarrow> v | None \<Rightarrow> dflt)"
| "dict_get v k dflt = Inl (Exception ''AttributeError'')"


section \<open>The vendor cache (mac\_vendor.py)\<close>

subsection \<open>Constants and normalisation\<close>

definition CACHE_EXPIRY :: real where
  "CACHE_EXPIRY = 30 * 24 * 60 * 60"

text \<open>The two entries of \<^verbatim>\<open>API_URLS\<close>, named so that a statement can refer to each.\<close>

definition MACVENDORS_URL :: string where
  "MACVENDORS_URL = ''https://api.macvendors.com/''"

definition MACLOOKUP_URL :: string where
  "MACLOOKUP_URL = ''https://api.maclookup.app/v2/macs/''"

definition API_URLS :: "string list" where
  "API_URLS = [MACVENDORS_URL, MACLOOKUP_URL]"

definition request_interval :: real where
  "request_interval = 1"

definition normalize_mac :: "string \<Rightarrow> string" where
  "normalize_mac mac =
     (let mac1 = upper mac;
          mac2 = filter isalnum mac1
      in if length mac2 < 6 then [] else take 6 mac2)"

subsection \<open>The world outside the process\<close>

text \<open>
  \<^verbatim>\<open>time.time()\<close> is a real number of seconds (the rounding of floats is not modelled).
  The world holds the clock, the log of the HTTP requests issued so far, each with the time
  it was issued at, and the contents of the cache file (\<open>None\<close>: no readable file).
  What the environment answers during one \<^verbatim>\<open>lookup\<close> is a \<open>lookup_env\<close>: the outcome and
  the duration of \<^verbatim>\<open>requests.get\<close> for each URL, by how much \<^verbatim>\<open>time.sleep\<close>
  oversleeps, and whether writing the file succeeds (on \<^verbatim>\<open>IOError\<close>, what is left in the
  file).
\<close>

record response =
  status_code :: int
  resp_text :: string
  json :: "exn + pyval"

type_synonym cache_map = "string \<rightharpoonup> (pyval \<times> real)"

datatype write_outcome = Written | IOError "cache_map option"

record world =
  clock :: real
  calls :: "(real \<times> string) list"
  cache_file :: "cache_map option"

record lookup_env =
  fetch :: "string \<Rightarrow> exn + response"
  latency :: "string \<Rightarrow> real"
  oversleep :: real
  disk :: write_outcome

definition sleep :: "lookup_env \<Rightarrow> real \<Rightarrow> world \<Rightarrow> world" where
  "sleep env secs w = w\<lparr>clock := clock w + secs + oversleep env\<rparr>"

definition requests_get :: "lookup_env \<Rightarrow> string \<Rightarrow> world \<Rightarrow> (exn + response) \<times> world" where
  "requests_get env url w =
     (fetch env url,
      w\<lparr>calls := calls w @ [(clock w, url)], clock := clock w + latency env url\<rparr>)"

subsection \<open>The online lookup\<close>

text \<open>
  One turn of the loop of \<^verbatim>\<open>_lookup_online\<close>, given the answer to the request: either a
  \<^verbatim>\<open>return\<close> (\<open>Some\<close> of the value), or the loop goes on to the next URL (\<open>None\<close>): by
  \<^verbatim>\<open>continue\<close> in the handler of an exception, or by falling out of the \<^verbatim>\<open>if\<close>.
\<close>

definition parse_response :: "string \<Rightarrow> exn + response \<Rightarrow> pyval option" where
  "parse_response api_url got =
     (case got of
        Inl e \<Rightarrow> None
      | Inr r \<Rightarrow>
          if status_code r = 200 then
            if contains api_url ''maclookup.app'' then
              (case json r of
                 Inl e \<Rightarrow> None
               | Inr data \<Rightarrow>
                   (case dict_get data ''success'' PNone of
                      Inl e \<Rightarrow> None
                    | Inr success \<Rightarrow>
                        if truthy success then
                          (case dict_get data ''data'' PNone of
                             Inl e \<Rightarrow> None
                           | Inr d \<Rightarrow>
                               if truthy d then
                                 (case dict_get data ''data'' (PDict []) of
                                    Inl e \<Rightarrow> None
                                  | Inr dd \<Rightarrow>
                                      (case dict_get dd ''vendor'' (PStr ''Unknown'') of
                                         Inl e \<Rightarrow> None
                                       | Inr v \<Rightarrow> Some v))
                               else None)
                        else None))
            else Some (PStr (strip (resp_text r)))
          else None)"

fun lookup_online_loop :: "lookup_env \<Rightarrow> string \<Rightarrow> string list \<Rightarrow> world \<Rightarrow> pyval \<times> world" where
  "lookup_online_loop env mac [] w = (PStr ''Unknown'', w)"
| "lookup_online_loop env mac (api_url # rest) w =
     (let url = api_url @ mac;
          (got, w1) = requests_get env url w
      in case parse_response api_url got of
           Some v \<Rightarrow> (v, w1)
         | None \<Rightarrow> lookup_online_loop env mac rest w1)"

definition lookup_online :: "lookup_env \<Rightarrow> string \<Rightarrow> world \<Rightarrow> pyval \<times> world" where
  "lookup_online env mac w = lookup_online_loop env mac API_URLS w"

subsection \<open>The cached lookup\<close>

record vendor_lookup =
  cache :: cache_map
  last_request_time :: real

definition save_cache :: "lookup_env \<Rightarrow> vendor_lookup \<Rightarrow> world \<Rightarrow> world" where
  "save_cache env self w =
     (case disk env of
        Written \<Rightarrow> w\<lparr>cache_file := Some (cache self)\<rparr>
      | IOError left \<Rightarrow> w\<lparr>cache_file := left\<rparr>)"

text \<open>
  The part of \<^verbatim>\<open>lookup\<close> after the cache has been consulted without a hit: the wait
  that spaces the requests (\<open>rate_limit\<close>), the online lookup, and the update of the cache.
\<close>

definition rate_limit :: "lookup_env \<Rightarrow> real \<Rightarrow> vendor_lookup \<Rightarrow> world \<Rightarrow> world" where
  "rate_limit env current_time self w =
     (if current_time - last_request_time self < request_interval
      then sleep env (request_interval - (current_time - last_request_time self)) w
      else w)"

definition lookup_miss ::
  "lookup_env \<Rightarrow> string \<Rightarrow> real \<Rightarrow> vendor_lookup \<Rightarrow> world \<Rightarrow> pyval \<times> vendor_lookup \<times> world" where
  "lookup_miss env normalized_mac current_time self w =
     (let w1 = rate_limit env current_time self w;
          (vendor, w2) = lookup_online env normalized_mac w1;
          self1 = self\<lparr>last_request_time := clock w2\<rparr>
      in if truthy vendor then
           (let self2 = self1\<lparr>cache := (cache self1)(normalized_mac \<mapsto> (vendor, current_time))\<rparr>
            in (vendor, self2, save_cache env self2 w2))
         else (vendor, self1, w2))"

definition lookup ::
  "lookup_env \<Rightarrow> string \<Rightarrow> vendor_lookup \<Rightarrow> world \<Rightarrow> pyval \<times> vendor_lookup \<times> world" where
  "lookup env mac self w =
     (if mac = [] then (PNone, self, w)
      else
        let normalized_mac = normalize_mac mac
        in if normalized_mac = [] then (PNone, self, w)
           else
             let current_time = clock w
             in case cache self normalized_mac of
                  Some (vendor, timestamp) \<Rightarrow>
                    if current_time - timestamp < CACHE_EXPIRY then (vendor, self, w)
                    else lookup_miss env normalized_mac current_time self w
                | None \<Rightarrow> lookup_miss env normalized_mac current_time self w)"


section \<open>Passive discovery (realtime\_discovery.py)\<close>

subsection \<open>Data\<close>

text \<open>
  A \<^verbatim>\<open>datetime\<close> is its count of microseconds, a \<^verbatim>\<open>timedelta\<close> the difference of two;
  \<^verbatim>\<open>total_seconds()\<close> divides by \<open>10\<^sup>6\<close>.

  \<^verbatim>\<open>ArpEntry\<close> and \<^verbatim>\<open>DHCPLease\<close> are declared in the module \<^verbatim>\<open>models\<close>; the
  records below have the attributes that this module reads. A lease is an entry with a
  \<^verbatim>\<open>hostname\<close>. A missing value (\<^verbatim>\<open>None\<close>) of a string attribute is the empty string:
  the program only tests these attributes for truth.
\<close>

definition total_seconds :: "int \<Rightarrow> real" where
  "total_seconds td = of_int td / 1000000"

definition timedelta_days :: "int \<Rightarrow> int" where
  "timedelta_days n = n * 86400000000"

definition NEW_DEVICE_THRESHOLD :: real where
  "NEW_DEVICE_THRESHOLD = 300"

record net_entry =
  e_mac_address :: string
  e_address :: string
  e_vendor :: string
  e_device_type :: string
  e_device_id :: string

record dhcp_lease = net_entry +
  e_hostname :: string

record discovered_device =
  mac_address :: string
  ip_address :: string
  hostname :: string
  vendor :: string
  device_type :: string
  first_seen :: int
  last_seen :: int
  source :: string
  source_device_id :: string
  is_new :: bool

type_synonym inventory = "string \<rightharpoonup> discovered_device"

text \<open>
  What \<^verbatim>\<open>extract_device_info\<close> gets from outside when it builds the record of a MAC:
  the reading of \<^verbatim>\<open>datetime.now()\<close>, the outcome of \<^verbatim>\<open>mac_vendor_lookup.lookup\<close>
  (an exception, \<^verbatim>\<open>None\<close> or a string) and the classifier
  \<^verbatim>\<open>mac_vendor_lookup.get_device_type\<close>. A pass builds the record of a MAC at most once,
  so the answers are indexed by the MAC.
\<close>

record discovery_env =
  datetime_now :: "string \<Rightarrow> int"
  vendor_lookup_result :: "string \<Rightarrow> exn + string option"
  get_device_type :: "string \<Rightarrow> string"

definition py_or :: "string \<Rightarrow> string \<Rightarrow> string" where
  "py_or a b = (if a \<noteq> [] then a else b)"

subsection \<open>Building a record\<close>

text \<open>
  \<open>hostname_attr\<close> is the attribute \<^verbatim>\<open>hostname\<close> of the entry, \<open>None\<close> when
  \<^verbatim>\<open>hasattr(entry, "hostname")\<close> is false.
\<close>

definition extract_device_info ::
  "discovery_env \<Rightarrow> 'a net_entry_scheme \<Rightarrow> string option \<Rightarrow> string \<Rightarrow> string
     \<Rightarrow> discovered_device" where
  "extract_device_info env entry hostname_attr source_type src_device_id =
     (let mac = upper (e_mac_address entry);
          now = datetime_now env mac;
          hostname0 = (if source_type = ''dhcp''
                       then (case hostname_attr of Some h \<Rightarrow> h | None \<Rightarrow> [])
                       else []);
          vendor0 = py_or (e_vendor entry) ''Unknown'';
          device_type0 = py_or (e_device_type entry) ''Unknown'';
          (vendor1, device_type1) =
            (if vendor0 = ''Unknown'' \<and> mac \<noteq> [] then
               (case vendor_lookup_result env mac of
                  Inl e \<Rightarrow> (vendor0, device_type0)
                | Inr r \<Rightarrow>
                    (let v = (case r of Some s \<Rightarrow> py_or s ''Unknown'' | None \<Rightarrow> ''Unknown'')
                     in (v, if v \<noteq> ''Unknown'' then get_device_type env v else device_type0)))
             else (vendor0, device_type0))
      in \<lparr> mac_address = mac,
           ip_address = e_address entry,
           hostname = hostname0,
           vendor = vendor1,
           device_type = device_type1,
           first_seen = now,
           last_seen = now,
           source = source_type,
           source_device_id = src_device_id,
           is_new = True \<rparr>)"

subsection \<open>One pass\<close>

text \<open>
  The state of a pass: the global \<^verbatim>\<open>discovered_devices\<close>, the keys of the records created
  in the pass, in order, and \<^verbatim>\<open>current_macs\<close>. The list \<^verbatim>\<open>new_devices\<close> of the source
  holds the very dictionaries stored in \<^verbatim>\<open>discovered_devices\<close>, so what the pass returns
  is read from the inventory at the end of the two loops.
\<close>

record pass_state =
  devices :: inventory
  new_macs :: "string list"
  current_macs :: "string set"

definition refresh_is_new :: "int \<Rightarrow> discovered_device \<Rightarrow> discovered_device" where
  "refresh_is_new now d =
     (if total_seconds (now - first_seen d) < NEW_DEVICE_THRESHOLD
      then d\<lparr>is_new := True\<rparr> else d\<lparr>is_new := False\<rparr>)"

definition process_arp :: "discovery_env \<Rightarrow> int \<Rightarrow> net_entry \<Rightarrow> pass_state \<Rightarrow> pass_state" where
  "process_arp env now entry st =
     (if e_mac_address entry = [] then st
      else
        let mac = upper (e_mac_address entry);
            st1 = st\<lparr>current_macs := insert mac (current_macs st)\<rparr>
        in case devices st1 mac of
             None \<Rightarrow>
               (let device_info = extract_device_info env entry None ''arp'' (e_device_id entry)
                in st1\<lparr>devices := (devices st1)(mac \<mapsto> device_info),
                       new_macs := new_macs st1 @ [mac]\<rparr>)
           | Some d \<Rightarrow>
               (let d1 = d\<lparr>last_seen := now, ip_address := e_address entry\<rparr>
                in st1\<lparr>devices := (devices st1)(mac \<mapsto> refresh_is_new now d1)\<rparr>))"

definition process_dhcp :: "discovery_env \<Rightarrow> int \<Rightarrow> dhcp_lease \<Rightarrow> pass_state \<Rightarrow> pass_state" where
  "process_dhcp env now lease st =
     (if e_mac_address lease = [] then st
      else
        let mac = upper (e_mac_address lease);
            st1 = st\<lparr>current_macs := insert mac (current_macs st)\<rparr>
        in case devices st1 mac of
             None \<Rightarrow>
               (let device_info =
                      extract_device_info env lease (Some (e_hostname lease)) ''dhcp''
                        (e_device_id lease)
                in st1\<lparr>devices := (devices st1)(mac \<mapsto> device_info),
                       new_macs := new_macs st1 @ [mac]\<rparr>)
           | Some d \<Rightarrow>
               (let d1 = d\<lparr>last_seen := now, ip_address := e_address lease\<rparr>;
                    d2 = (if e_hostname lease \<noteq> [] \<and> hostname d1 = []
                          then d1\<lparr>hostname := e_hostname lease\<rparr> else d1)
                in st1\<lparr>devices := (devices st1)(mac \<mapsto> refresh_is_new now d2)\<rparr>))"

fun arp_loop :: "discovery_env \<Rightarrow> int \<Rightarrow> net_entry list \<Rightarrow> pass_state \<Rightarrow> pass_state" where
  "arp_loop env now [] st = st"
| "arp_loop env now (entry # rest) st = arp_loop env now rest (process_arp env now entry st)"

fun dhcp_loop :: "discovery_env \<Rightarrow> int \<Rightarrow> dhcp_lease list \<Rightarrow> pass_state \<Rightarrow> pass_state" where
  "dhcp_loop env now [] st = st"
| "dhcp_loop env now (lease # rest) st = dhcp_loop env now rest (process_dhcp env now lease st)"

definition evict :: "int \<Rightarrow> string set \<Rightarrow> inventory \<Rightarrow> inventory" where
  "evict now cur devs =
     (let inactive_threshold = now - timedelta_days 1
      in (\<lambda>mac. case devs mac of
                   None \<Rightarrow> None
                 | Some device \<Rightarrow>
                     if last_seen device < inactive_threshold \<and> mac \<notin> cur then None
                     else Some device))"

text \<open>
  \<^verbatim>\<open>DataStore.arp_entries\<close> and \<^verbatim>\<open>DataStore.dhcp_leases\<close> map a device identifier to
  its records; \<^verbatim>\<open>get_all_arp_entries\<close> and \<^verbatim>\<open>get_all_dhcp_leases\<close> concatenate them.
\<close>

definition get_all_arp_entries :: "(string \<times> net_entry list) list \<Rightarrow> net_entry list" where
  "get_all_arp_entries store = concat (map snd store)"

definition get_all_dhcp_leases :: "(string \<times> dhcp_lease list) list \<Rightarrow> dhcp_lease list" where
  "get_all_dhcp_leases store = concat (map snd store)"

definition detect_new_devices ::
  "discovery_env \<Rightarrow> int \<Rightarrow> (string \<times> net_entry list) list \<Rightarrow> (string \<times> dhcp_lease list) list
     \<Rightarrow> inventory \<Rightarrow> discovered_device list \<times> inventory" where
  "detect_new_devices env now arp_store dhcp_store devs =
     (let st0 = \<lparr>devices = devs, new_macs = [], current_macs = {}\<rparr>;
          st1 = arp_loop env now (get_all_arp_entries arp_store) st0;
          st2 = dhcp_loop env now (get_all_dhcp_leases dhcp_store) st1
      in (List.map_filter (devices st2) (new_macs st2),
          evict now (current_macs st2) (devices st2)))"

text \<open>The MACs that a pass observes: the keys of the records of both feeds.\<close>

definition observed :: "'a net_entry_scheme list \<Rightarrow> string set" where
  "observed es = set (map (\<lambda>e. upper (e_mac_address e)) (filter (\<lambda>e. e_mac_address e \<noteq> []) es))"

definition observed_macs ::
  "(string \<times> net_entry list) list \<Rightarrow> (string \<times> dhcp_lease list) list \<Rightarrow> string set" where
  "observed_macs arp_store dhcp_store =
     observed (get_all_arp_entries arp_store) \<union> observed (get_all_dhcp_leases dhcp_store)"

subsection \<open>Promotion into the monitored set\<close>

text \<open>
  A device of the monitored set is a dictionary; \<open>md_mac_address\<close> is \<open>None\<close> when it has no
  key \<^verbatim>\<open>mac_address\<close> (the devices added by the active scan have none), and \<open>md_id\<close> is
  \<open>None\<close> for the Python value \<^verbatim>\<open>None\<close>.
\<close>

record monitored_device =
  md_id :: "string option"
  md_name :: string
  md_host :: string
  md_mac_address :: "string option"
  md_site_id :: string
  md_port :: int
  md_username :: string
  md_password :: string
  md_enabled :: bool
  md_use_ssl :: bool
  md_vendor :: string
  md_device_type :: string
  md_comment :: string

text \<open>
  Modelled from the spec: the module \<^verbatim>\<open>config\<close> (\<^verbatim>\<open>config.get_devices\<close>,
  \<^verbatim>\<open>config.add_device\<close>) is not among the sources. The spec gives the collaborator's
  contract as \<^verbatim>\<open>list() -> [MonitoredDevice]\<close> and \<^verbatim>\<open>create(record) -> id\<close>, and the
  caller's comment says that \<^verbatim>\<open>add_device\<close> makes the identifier. The store is the list
  of its devices; \<open>add_device\<close> appends the record, with an identifier from the generator
  \<open>new_id\<close> when it brings none.
\<close>

type_synonym config_store = "monitored_device list"

definition get_devices :: "config_store \<Rightarrow> monitored_device list" where
  "get_devices store = store"

definition add_device ::
  "(config_store \<Rightarrow> string) \<Rightarrow> monitored_device \<Rightarrow> config_store \<Rightarrow> config_store" where
  "add_device new_id dev store =
     store @ [dev\<lparr>md_id := (case md_id dev of None \<Rightarrow> Some (new_id store) | Some i \<Rightarrow> Some i)\<rparr>]"

definition last6 :: "string \<Rightarrow> string" where
  "last6 s = drop (length s - 6) s"

definition same_mac_upper :: "string \<Rightarrow> monitored_device \<Rightarrow> bool" where
  "same_mac_upper mac dev =
     (case md_mac_address dev of None \<Rightarrow> False | Some m \<Rightarrow> upper m = upper mac)"

definition device_name :: "discovered_device \<Rightarrow> string \<Rightarrow> string" where
  "device_name device_info mac =
     (if hostname device_info \<noteq> [] then hostname device_info
      else if vendor device_info \<noteq> ''Unknown'' then vendor device_info @ '' - '' @ last6 mac
      else ''Thi'' @ [CHR 0xE1, CHR 0xBA, CHR 0xBF] @ ''t b'' @ [CHR 0xE1, CHR 0xBB, CHR 0x8B]
             @ '' '' @ last6 mac)"

text \<open>
  \<open>strftime\<close> formats the first-seen time (\<^verbatim>\<open>strftime('%d/%m/%Y %H:%M:%S')\<close>); the
  literals with Vietnamese letters are written as their UTF-8 bytes.
\<close>

definition new_monitored_device ::
  "(int \<Rightarrow> string) \<Rightarrow> discovered_device \<Rightarrow> string \<Rightarrow> string \<Rightarrow> monitored_device" where
  "new_monitored_device strftime device_info mac site_id =
     \<lparr> md_id = None,
       md_name = device_name device_info mac,
       md_host = ip_address device_info,
       md_mac_address = Some mac,
       md_site_id = site_id,
       md_port = 8728,
       md_username = ''admin'',
       md_password = [],
       md_enabled = False,
       md_use_ssl = False,
       md_vendor = vendor device_info,
       md_device_type = device_type device_info,
       md_comment =
         ''Ph'' @ [CHR 0xC3, CHR 0xA1] @ ''t hi'' @ [CHR 0xE1, CHR 0xBB, CHR 0x87] @ ''n t''
           @ [CHR 0xE1, CHR 0xBB, CHR 0xB1] @ '' ''
           @ [CHR 0xC4, CHR 0x91, CHR 0xE1, CHR 0xBB, CHR 0x99] @ ''ng t''
           @ [CHR 0xE1, CHR 0xBB, CHR 0xAB] @ '' '' @ source device_info
           @ '' v'' @ [CHR 0xC3, CHR 0xA0] @ ''o '' @ strftime (first_seen device_info) \<rparr>"

definition add_to_monitored_devices ::
  "(config_store \<Rightarrow> string) \<Rightarrow> (int \<Rightarrow> string) \<Rightarrow> string \<Rightarrow> string \<Rightarrow> inventory
     \<Rightarrow> config_store \<Rightarrow> string option \<times> config_store" where
  "add_to_monitored_devices new_id strftime mac site_id devs store =
     (case devs mac of
        None \<Rightarrow> (None, store)
      | Some device_info \<Rightarrow>
          (case find (same_mac_upper mac) (get_devices store) of
             Some existing_device \<Rightarrow> (md_id existing_device, store)
           | None \<Rightarrow>
               (let new_device = new_monitored_device strftime device_info mac site_id;
                    store1 = add_device new_id new_device store
                in case find (\<lambda>device. md_mac_address device = Some mac) (get_devices store1) of
                     Some device \<Rightarrow> (md_id device, store1)
                   | None \<Rightarrow> (None, store1))))"


section \<open>The active probe (discovery.py)\<close>








section \<open>Notions used in the statements\<close>

text \<open>
  \<open>spaced cs\<close>: in the chronological log \<open>cs\<close>, each request is issued at least
  \<open>request_interval\<close> after the one before it. \<open>calls_before self w\<close>: every request logged
  in \<open>w\<close> was issued no later than \<open>last_request_time self\<close>. \<open>later_world secs w\<close> is
  the world \<open>secs\<close> seconds later.
\<close>

fun spaced :: "(real \<times> string) list \<Rightarrow> bool" where
  "spaced [] = True"
| "spaced [c] = True"
| "spaced (c1 # c2 # cs) = (fst c1 + request_interval \<le> fst c2 \<and> spaced (c2 # cs))"

definition calls_before :: "vendor_lookup \<Rightarrow> world \<Rightarrow> bool" where
  "calls_before self w = list_all (\<lambda>c. fst c \<le> last_request_time self) (calls w)"

definition later_world :: "real \<Rightarrow> world \<Rightarrow> world" where
  "later_world secs w = w\<lparr>clock := clock w + secs\<rparr>"

subsection \<open>Concrete inputs\<close>

text \<open>
  A MAC address, a lookup object as \<^verbatim>\<open>__init__\<close> leaves it when there is no cache file,
  one that holds an entry written at time 1000, worlds, two responses, and two
  environments: in \<open>env_down\<close> every provider answers HTTP 500; in \<open>env_fallback\<close> the first
  provider answers HTTP 500 and the second the envelope of the spec's example. Each request
  takes a tenth of a second.
\<close>

definition mac0 :: string where
  "mac0 = ''aa:bb:cc:00:11:22''"

definition mac1 :: string where
  "mac1 = ''11:22:33:44:55:66''"

definition fresh_lookup :: vendor_lookup where
  "fresh_lookup = \<lparr>cache = Map.empty, last_request_time = 0\<rparr>"

definition cached_lookup :: vendor_lookup where
  "cached_lookup = \<lparr>cache = [''AABBCC'' \<mapsto> (PStr ''Acme'', 1000)], last_request_time = 1000\<rparr>"

definition world_at :: "real \<Rightarrow> world" where
  "world_at t = \<lparr>clock = t, calls = [], cache_file = None\<rparr>"

definition world0 :: world where
  "world0 = \<lparr>clock = 1000, calls = [], cache_file = None\<rparr>"

definition http500 :: response where
  "http500 = \<lparr>status_code = 500, resp_text = [], json = Inl (Exception ''JSONDecodeError'')\<rparr>"

definition acme_envelope :: response where
  "acme_envelope =
     \<lparr>status_code = 200, resp_text = [],
      json = Inr (PDict [(''success'', PBool True), (''data'', PDict [(''vendor'', PStr ''Acme'')])])\<rparr>"

definition env_down :: lookup_env where
  "env_down =
     \<lparr>fetch = (\<lambda>url. Inr http500), latency = (\<lambda>url. 1 / 10), oversleep = 0, disk = Written\<rparr>"

definition env_fallback :: lookup_env where
  "env_fallback =
     \<lparr>fetch = (\<lambda>url. if url = MACVENDORS_URL @ ''AABBCC'' then Inr http500 else Inr acme_envelope),
      latency = (\<lambda>url. 1 / 10), oversleep = 0, disk = Written\<rparr>"


subsection \<open>Notions for the inventory\<close>

text \<open>
  \<open>after_loops\<close> is the state of a pass when both loops have run, before the eviction.
  \<open>lease_names m ls\<close> are the non-empty hostnames of the leases of \<open>ls\<close> whose key is
  \<open>m\<close>. \<open>keys_upper devs\<close>: every key of the inventory is its own upper-case form.
  \<open>promoted_record\<close> is the record that \<^verbatim>\<open>add_to_monitored_devices\<close> hands to the store,
  with the identifier the store gives it.
\<close>

definition after_loops ::
  "discovery_env \<Rightarrow> int \<Rightarrow> (string \<times> net_entry list) list \<Rightarrow> (string \<times> dhcp_lease list) list
     \<Rightarrow> inventory \<Rightarrow> pass_state" where
  "after_loops env now arp_store dhcp_store devs =
     dhcp_loop env now (get_all_dhcp_leases dhcp_store)
       (arp_loop env now (get_all_arp_entries arp_store)
          \<lparr>devices = devs, new_macs = [], current_macs = {}\<rparr>)"

definition lease_names :: "string \<Rightarrow> dhcp_lease list \<Rightarrow> string set" where
  "lease_names m ls =
     set (map e_hostname (filter (\<lambda>l. e_mac_address l \<noteq> [] \<and> upper (e_mac_address l) = m \<and> e_hostname l \<noteq> []) ls))"

definition keys_upper :: "inventory \<Rightarrow> bool" where
  "keys_upper devs = (\<forall>k. devs k \<noteq> None \<longrightarrow> upper k = k)"

definition promoted_record ::
  "(config_store \<Rightarrow> string) \<Rightarrow> (int \<Rightarrow> string) \<Rightarrow> discovered_device \<Rightarrow> string \<Rightarrow> string
     \<Rightarrow> config_store \<Rightarrow> monitored_device" where
  "promoted_record new_id strftime info mac site_id store =
     (new_monitored_device strftime info mac site_id)\<lparr>md_id := Some (new_id store)\<rparr>"

subsection \<open>Concrete inputs for the inventory and the probe\<close>

text \<open>
  A router reports the MAC \<open>mac0\<close> in its ARP table (\<open>entry0\<close>) or as a lease with the
  hostname \<^verbatim>\<open>laptop\<close> (\<open>lease0\<close>); the key of both is \<open>key0\<close>. In \<open>denv_at t\<close> the
  clock reads \<open>t\<close> and the vendor lookup finds nothing. \<open>device0\<close> is a record first seen
  at time 0, \<open>named0\<close> the same with a hostname. \<open>promote0\<close> is the promotion with a fixed
  identifier generator, date format and site; \<open>monitored0\<close> a monitored device with the
  same MAC in lower case; \<open>inventory1\<close> the inventory after one pass over \<open>entry0\<close>.
  \<open>entry_plain\<close> reports the same address without separators, and \<open>inventory2\<close> is the
  inventory after one pass over both entries. The three probed hosts refuse the
  connection, reject the login, and answer in full.
\<close>

definition key0 :: string where
  "key0 = ''AA:BB:CC:00:11:22''"

definition entry0 :: net_entry where
  "entry0 = \<lparr>e_mac_address = mac0, e_address = ''10.0.0.5'', e_vendor = [], e_device_type = [],
             e_device_id = ''router1''\<rparr>"

definition lease0 :: dhcp_lease where
  "lease0 = \<lparr>e_mac_address = mac0, e_address = ''10.0.0.5'', e_vendor = [], e_device_type = [],
             e_device_id = ''router1'', e_hostname = ''laptop''\<rparr>"

definition denv_at :: "int \<Rightarrow> discovery_env" where
  "denv_at t = \<lparr>datetime_now = (\<lambda>mac. t), vendor_lookup_result = (\<lambda>mac. Inr None),
               get_device_type = (\<lambda>v. ''Unknown'')\<rparr>"

definition device0 :: discovered_device where
  "device0 = \<lparr>mac_address = key0, ip_address = ''10.0.0.5'', hostname = [], vendor = ''Unknown'',
              device_type = ''Unknown'', first_seen = 0, last_seen = 0, source = ''arp'',
              source_device_id = ''router1'', is_new = True\<rparr>"

definition named0 :: discovered_device where
  "named0 = device0\<lparr>hostname := ''laptop''\<rparr>"

definition arp0 :: "(string \<times> net_entry list) list" where
  "arp0 = [(''router1'', [entry0])]"

definition dhcp0 :: "(string \<times> dhcp_lease list) list" where
  "dhcp0 = [(''router1'', [lease0])]"

definition promote0 :: "string \<Rightarrow> inventory \<Rightarrow> config_store \<Rightarrow> string option \<times> config_store" where
  "promote0 mac devs store =
     add_to_monitored_devices (\<lambda>store. ''dev-1'') (\<lambda>t. ''01/01/1970 00:00:00'') mac ''site1''
       devs store"

definition monitored0 :: monitored_device where
  "monitored0 =
     \<lparr> md_id = Some ''dev-7'', md_name = ''printer'', md_host = ''10.0.0.5'',
       md_mac_address = Some mac0, md_site_id = ''site1'', md_port = 8728,
       md_username = ''admin'', md_password = [], md_enabled = True, md_use_ssl = False,
       md_vendor = ''Unknown'', md_device_type = ''Unknown'', md_comment = [] \<rparr>"

definition inventory1 :: inventory where
  "inventory1 = snd (detect_new_devices (denv_at 5) 0 arp0 [] Map.empty)"

definition entry_plain :: net_entry where
  "entry_plain = \<lparr>e_mac_address = ''aabbcc001122'', e_address = ''10.0.0.5'', e_vendor = [],
                  e_device_type = [], e_device_id = ''router2''\<rparr>"

definition arp2 :: "(string \<times> net_entry list) list" where
  "arp2 = [(''router1'', [entry0]), (''router2'', [entry_plain])]"

definition inventory2 :: inventory where
  "inventory2 = snd (detect_new_devices (denv_at 5) 0 arp2 [] Map.empty)"





section \<open>Properties of the vendor cache\<close>

subsection \<open>The online lookup, unfolded\<close>

lemma url2_is_maclookup: "contains MACLOOKUP_URL ''maclookup.app''"
  by code_simp

lemma url1_not_maclookup: "\<not> contains MACVENDORS_URL ''maclookup.app''"
  by code_simp

lemma parse_first_200:
  "status_code r = 200 \<Longrightarrow>
   parse_response MACVENDORS_URL (Inr r) = Some (PStr (strip (resp_text r)))"
  by (simp add: parse_response_def url1_not_maclookup)

lemma parse_not_200: "status_code r \<noteq> 200 \<Longrightarrow> parse_response u (Inr r) = None"
  by (simp add: parse_response_def)

lemma parse_exn: "parse_response u (Inl e) = None"
  by (simp add: parse_response_def)

lemma parse_second_envelope:
  assumes "status_code r = 200" "json r = Inr (PDict kvs)"
    "map_of kvs ''success'' = Some s" "truthy s"
    "map_of kvs ''data'' = Some (PDict d)" "d \<noteq> []"
  shows "parse_response MACLOOKUP_URL (Inr r) =
           Some (case map_of d ''vendor'' of Some v \<Rightarrow> v | None \<Rightarrow> PStr ''Unknown'')"
  using assms by (simp add: parse_response_def url2_is_maclookup)

lemma lookup_online_unfold:
  "lookup_online env mac w =
     (let u1 = MACVENDORS_URL @ mac;
          u2 = MACLOOKUP_URL @ mac;
          w1 = w\<lparr>calls := calls w @ [(clock w, u1)], clock := clock w + latency env u1\<rparr>
      in case parse_response MACVENDORS_URL (fetch env u1) of
           Some v \<Rightarrow> (v, w1)
         | None \<Rightarrow>
            (let w2 = w1\<lparr>calls := calls w1 @ [(clock w1, u2)], clock := clock w1 + latency env u2\<rparr>
             in case parse_response MACLOOKUP_URL (fetch env u2) of
                  Some v \<Rightarrow> (v, w2)
                | None \<Rightarrow> (PStr ''Unknown'', w2)))"
  by (simp add: lookup_online_def API_URLS_def requests_get_def Let_def split: option.splits)

lemma lookup_online_first_call:
  "\<exists>rest. calls (snd (lookup_online env mac w)) =
      calls w @ (clock w, MACVENDORS_URL @ mac) # rest"
  by (simp add: lookup_online_unfold Let_def split: option.splits)

lemma rate_limit_calls: "calls (rate_limit env t self w) = calls w"
  by (simp add: rate_limit_def sleep_def)

lemma rate_limit_cache_file: "cache_file (rate_limit env t self w) = cache_file w"
  by (simp add: rate_limit_def sleep_def)

lemma save_cache_calls: "calls (save_cache env s w) = calls w"
  by (simp add: save_cache_def split: write_outcome.splits)

lemma lookup_miss_result:
  "fst (lookup_miss env oui t self w) = fst (lookup_online env oui (rate_limit env t self w))"
  by (simp add: lookup_miss_def Let_def split: prod.splits)

lemma lookup_miss_calls:
  "calls (snd (snd (lookup_miss env oui t self w))) =
     calls (snd (lookup_online env oui (rate_limit env t self w)))"
  by (simp add: lookup_miss_def Let_def save_cache_calls split: prod.splits)

lemma lookup_stale:
  assumes "mac \<noteq> []" "normalize_mac mac = oui" "oui \<noteq> []"
    "cache self oui = None \<or>
     (\<exists>v ts. cache self oui = Some (v, ts) \<and> \<not> clock w - ts < CACHE_EXPIRY)"
  shows "lookup env mac self w = lookup_miss env oui (clock w) self w"
  using assms by (auto simp: lookup_def Let_def)

lemma lookup_miss_cached:
  assumes "lookup_miss env oui t self w = (res, self', w')"
  shows "(truthy res \<longrightarrow> cache self' oui = Some (res, t) \<and>
            (disk env = Written \<longrightarrow> cache_file w' = Some (cache self'))) \<and>
         (\<not> truthy res \<longrightarrow> cache self' = cache self \<and> cache_file w' = cache_file w)"
  using assms
  by (auto simp: lookup_miss_def Let_def save_cache_def lookup_online_unfold rate_limit_cache_file
      split: prod.splits option.splits if_splits)

subsection \<open>The concrete inputs, evaluated\<close>

lemma normalize_mac0: "normalize_mac mac0 = ''AABBCC''"
  unfolding mac0_def by code_simp

lemma normalize_mac1: "normalize_mac mac1 = ''112233''"
  unfolding mac1_def by code_simp

lemma mac0_nonempty: "mac0 \<noteq> []"
  by (simp add: mac0_def)

lemma lookup_down_unknown:
  "lookup env_down mac0 fresh_lookup world0 =
     (PStr ''Unknown'',
      \<lparr>cache = [''AABBCC'' \<mapsto> (PStr ''Unknown'', 1000)], last_request_time = 1000 + 2 / 10\<rparr>,
      \<lparr>clock = 1000 + 2 / 10,
       calls = [(1000, MACVENDORS_URL @ ''AABBCC''), (1000 + 1 / 10, MACLOOKUP_URL @ ''AABBCC'')],
       cache_file = Some [''AABBCC'' \<mapsto> (PStr ''Unknown'', 1000)]\<rparr>)"
  by (simp add: lookup_def mac0_nonempty normalize_mac0 fresh_lookup_def world0_def
      lookup_miss_def rate_limit_def request_interval_def lookup_online_unfold Let_def
      env_down_def http500_def parse_response_def save_cache_def)

lemma env_fallback_fetch1: "fetch env_fallback (MACVENDORS_URL @ ''AABBCC'') = Inr http500"
  by (simp add: env_fallback_def)

lemma env_fallback_fetch2: "fetch env_fallback (MACLOOKUP_URL @ ''AABBCC'') = Inr acme_envelope"
  by (simp add: env_fallback_def MACLOOKUP_URL_def MACVENDORS_URL_def)

lemma cached_lookup_entry: "cache cached_lookup ''AABBCC'' = Some (PStr ''Acme'', 1000)"
  by (simp add: cached_lookup_def)

subsection \<open>Exhausted providers\<close>

text \<open>
  C1. The claim: when every provider fails, \<^verbatim>\<open>lookup\<close> returns \<^verbatim>\<open>"Unknown"\<close> and
  writes no entry for the OUI, neither in memory nor in the file, so that the next lookup
  of the MAC asks the providers again. The code returns \<^verbatim>\<open>"Unknown"\<close>, but the guard
  \<^verbatim>\<open>if vendor:\<close> before the write lets the non-empty string \<^verbatim>\<open>"Unknown"\<close> through:
  with both providers answering HTTP 500, the lookup of \<open>mac0\<close> at time 1000 returns
  \<^verbatim>\<open>"Unknown"\<close>, stores \<^verbatim>\<open>("Unknown", 1000)\<close> under \<^verbatim>\<open>AABBCC\<close> in the cache and in the
  file, and a second lookup a minute later is answered from the cache: it returns
  \<^verbatim>\<open>"Unknown"\<close> and leaves the object and the world, hence the log of requests, as they
  were.
\<close>

theorem unknown_is_cached:
  "fst (lookup env_down mac0 fresh_lookup world0) = PStr ''Unknown'' \<and>
   cache (fst (snd (lookup env_down mac0 fresh_lookup world0))) ''AABBCC''
     = Some (PStr ''Unknown'', 1000) \<and>
   cache_file (snd (snd (lookup env_down mac0 fresh_lookup world0)))
     = Some [''AABBCC'' \<mapsto> (PStr ''Unknown'', 1000)] \<and>
   lookup env_down mac0 (fst (snd (lookup env_down mac0 fresh_lookup world0)))
       (later_world 60 (snd (snd (lookup env_down mac0 fresh_lookup world0))))
     = (PStr ''Unknown'', fst (snd (lookup env_down mac0 fresh_lookup world0)),
        later_world 60 (snd (snd (lookup env_down mac0 fresh_lookup world0))))"
  by (simp add: lookup_down_unknown later_world_def)
    (simp add: lookup_def Let_def mac0_nonempty normalize_mac0 CACHE_EXPIRY_def)

subsection \<open>The time to live of an entry\<close>

text \<open>
  C6. For a MAC whose OUI has a cache entry \<open>(v, ts)\<close>: when the age \<open>clock w - ts\<close> is
  less than 2,592,000 seconds, \<^verbatim>\<open>lookup\<close> returns \<open>v\<close> and leaves the object and the
  world as they were, so no request is issued; when the age is 2,592,000 seconds or more,
  the result is that of the online lookup, and the log of requests grows, its first new
  entry being the request to the first provider.
\<close>

theorem cache_ttl:
  assumes "mac \<noteq> []" and "normalize_mac mac = oui" and "oui \<noteq> []"
    and "cache self oui = Some (v, ts)"
  shows "(clock w - ts < 2592000 \<longrightarrow> lookup env mac self w = (v, self, w)) \<and>
         (2592000 \<le> clock w - ts \<longrightarrow>
            fst (lookup env mac self w) =
              fst (lookup_online env oui (rate_limit env (clock w) self w)) \<and>
            (\<exists>t rest. calls (snd (snd (lookup env mac self w))) =
                 calls w @ (t, MACVENDORS_URL @ oui) # rest))"
proof (intro conjI impI)
  assume "clock w - ts < 2592000"
  with assms show "lookup env mac self w = (v, self, w)"
    by (simp add: lookup_def CACHE_EXPIRY_def)
next
  assume old: "2592000 \<le> clock w - ts"
  with assms have eq: "lookup env mac self w = lookup_miss env oui (clock w) self w"
    by (intro lookup_stale) (auto simp: CACHE_EXPIRY_def)
  show "fst (lookup env mac self w) =
          fst (lookup_online env oui (rate_limit env (clock w) self w))"
    by (simp add: eq lookup_miss_result)
  obtain rest where "calls (snd (lookup_online env oui (rate_limit env (clock w) self w))) =
      calls (rate_limit env (clock w) self w) @
        (clock (rate_limit env (clock w) self w), MACVENDORS_URL @ oui) # rest"
    using lookup_online_first_call by blast
  then show "\<exists>t rest. calls (snd (snd (lookup env mac self w))) =
                 calls w @ (t, MACVENDORS_URL @ oui) # rest"
    by (simp add: eq lookup_miss_calls rate_limit_calls)
qed

theorem cache_ttl_witness:
  "lookup env_down mac0 cached_lookup (world_at (1000 + 2591999)) =
     (PStr ''Acme'', cached_lookup, world_at (1000 + 2591999)) \<and>
   fst (lookup env_down mac0 cached_lookup (world_at (1000 + 2592000))) =
     fst (lookup_online env_down ''AABBCC''
            (rate_limit env_down (1000 + 2592000) cached_lookup (world_at (1000 + 2592000)))) \<and>
   (\<exists>t rest. calls (snd (snd (lookup env_down mac0 cached_lookup (world_at (1000 + 2592000))))) =
       (t, MACVENDORS_URL @ ''AABBCC'') # rest)"
proof -
  have h3: "''AABBCC'' \<noteq> []" by simp
  note t = cache_ttl[OF mac0_nonempty normalize_mac0 h3 cached_lookup_entry]
  have a: "clock (world_at (1000 + 2591999)) - 1000 < 2592000" by (simp add: world_at_def)
  have b: "2592000 \<le> clock (world_at (1000 + 2592000)) - 1000" by (simp add: world_at_def)
  from t[of "world_at (1000 + 2591999)" env_down] a
  have 1: "lookup env_down mac0 cached_lookup (world_at (1000 + 2591999)) =
     (PStr ''Acme'', cached_lookup, world_at (1000 + 2591999))" by blast
  from t[of "world_at (1000 + 2592000)" env_down] b
  have 2: "fst (lookup env_down mac0 cached_lookup (world_at (1000 + 2592000))) =
              fst (lookup_online env_down ''AABBCC''
                (rate_limit env_down (clock (world_at (1000 + 2592000))) cached_lookup
                   (world_at (1000 + 2592000)))) \<and>
            (\<exists>t rest. calls (snd (snd (lookup env_down mac0 cached_lookup
                                         (world_at (1000 + 2592000))))) =
                 calls (world_at (1000 + 2592000)) @ (t, MACVENDORS_URL @ ''AABBCC'') # rest)"
    by blast
  from 1 2 show ?thesis by (simp add: world_at_def)
qed

subsection \<open>The order of the providers\<close>

text \<open>
  C7. On a cache miss (no entry for the OUI, or an expired one) the providers are asked in
  the order of \<^verbatim>\<open>API_URLS\<close> and the first HTTP 200 answer decides. When the first
  provider answers 200, the result is its body, stripped, and only that provider is asked.
  When the first provider raises or answers another status, and the second answers 200
  with a JSON object whose \<^verbatim>\<open>success\<close> is true and whose \<^verbatim>\<open>data\<close> is an object with
  the field \<^verbatim>\<open>vendor\<close>, the result is that field, and both providers were asked, in
  order. A result that is true in Python's sense is stored under the OUI with the time read
  at the start of the lookup, and the cache file holds the whole cache when the write
  succeeds (an \<^verbatim>\<open>IOError\<close> is logged and the file is not the program's to vouch for). The
  witness is the spec's example: HTTP 500 from the first provider and the envelope with
  vendor \<^verbatim>\<open>Acme\<close> from the second.
\<close>

theorem provider_order:
  assumes "mac \<noteq> []" and "normalize_mac mac = oui" and "oui \<noteq> []"
    and "cache self oui = None \<or>
         (\<exists>v ts. cache self oui = Some (v, ts) \<and> \<not> clock w - ts < CACHE_EXPIRY)"
  shows "(\<forall>r. fetch env (MACVENDORS_URL @ oui) = Inr r \<and> status_code r = 200 \<longrightarrow>
            fst (lookup env mac self w) = PStr (strip (resp_text r)) \<and>
            map snd (calls (snd (snd (lookup env mac self w)))) =
              map snd (calls w) @ [MACVENDORS_URL @ oui]) \<and>
         (\<forall>r kvs s d v.
            (\<forall>r1. fetch env (MACVENDORS_URL @ oui) = Inr r1 \<longrightarrow> status_code r1 \<noteq> 200) \<and>
            fetch env (MACLOOKUP_URL @ oui) = Inr r \<and> status_code r = 200 \<and>
            json r = Inr (PDict kvs) \<and> map_of kvs ''success'' = Some s \<and> truthy s \<and>
            map_of kvs ''data'' = Some (PDict d) \<and> map_of d ''vendor'' = Some v \<longrightarrow>
            fst (lookup env mac self w) = v \<and>
            map snd (calls (snd (snd (lookup env mac self w)))) =
              map snd (calls w) @ [MACVENDORS_URL @ oui, MACLOOKUP_URL @ oui]) \<and>
         (truthy (fst (lookup env mac self w)) \<longrightarrow>
            cache (fst (snd (lookup env mac self w))) oui =
              Some (fst (lookup env mac self w), clock w) \<and>
            (disk env = Written \<longrightarrow>
               cache_file (snd (snd (lookup env mac self w))) =
                 Some (cache (fst (snd (lookup env mac self w))))))"
proof -
  have eq: "lookup env mac self w = lookup_miss env oui (clock w) self w"
    using assms by (rule lookup_stale)
  have first: "fst (lookup env mac self w) = PStr (strip (resp_text r)) \<and>
            map snd (calls (snd (snd (lookup env mac self w)))) =
              map snd (calls w) @ [MACVENDORS_URL @ oui]"
    if "fetch env (MACVENDORS_URL @ oui) = Inr r" "status_code r = 200" for r
    using that
    by (simp add: eq lookup_miss_result lookup_miss_calls lookup_online_unfold Let_def
        parse_first_200 rate_limit_calls)
  have second: "fst (lookup env mac self w) = v \<and>
            map snd (calls (snd (snd (lookup env mac self w)))) =
              map snd (calls w) @ [MACVENDORS_URL @ oui, MACLOOKUP_URL @ oui]"
    if no1: "\<forall>r1. fetch env (MACVENDORS_URL @ oui) = Inr r1 \<longrightarrow> status_code r1 \<noteq> 200"
      and r: "fetch env (MACLOOKUP_URL @ oui) = Inr r" "status_code r = 200"
        "json r = Inr (PDict kvs)" "map_of kvs ''success'' = Some s" "truthy s"
        "map_of kvs ''data'' = Some (PDict d)" "map_of d ''vendor'' = Some v"
    for r kvs s d v
  proof -
    have p1: "parse_response MACVENDORS_URL (fetch env (MACVENDORS_URL @ oui)) = None"
      using no1 by (cases "fetch env (MACVENDORS_URL @ oui)")
        (simp_all add: parse_exn parse_not_200)
    have "d \<noteq> []" using r(7) by auto
    then have p2: "parse_response MACLOOKUP_URL (Inr r) = Some v"
      using r by (simp add: parse_second_envelope)
    show ?thesis
      by (simp add: eq lookup_miss_result lookup_miss_calls lookup_online_unfold Let_def
          p1 p2 r(1) rate_limit_calls)
  qed
  obtain res self' w' where l: "lookup_miss env oui (clock w) self w = (res, self', w')"
    by (cases "lookup_miss env oui (clock w) self w") auto
  have third: "truthy (fst (lookup env mac self w)) \<longrightarrow>
            cache (fst (snd (lookup env mac self w))) oui =
              Some (fst (lookup env mac self w), clock w) \<and>
            (disk env = Written \<longrightarrow>
               cache_file (snd (snd (lookup env mac self w))) =
                 Some (cache (fst (snd (lookup env mac self w)))))"
    using lookup_miss_cached[OF l] by (simp add: eq l)
  from first second third show ?thesis by blast
qed

theorem provider_order_witness:
  "fst (lookup env_fallback mac0 fresh_lookup world0) = PStr ''Acme'' \<and>
   map snd (calls (snd (snd (lookup env_fallback mac0 fresh_lookup world0)))) =
     [MACVENDORS_URL @ ''AABBCC'', MACLOOKUP_URL @ ''AABBCC''] \<and>
   cache (fst (snd (lookup env_fallback mac0 fresh_lookup world0))) ''AABBCC'' =
     Some (PStr ''Acme'', 1000) \<and>
   cache_file (snd (snd (lookup env_fallback mac0 fresh_lookup world0))) =
     Some (cache (fst (snd (lookup env_fallback mac0 fresh_lookup world0))))"
proof -
  have h4: "cache fresh_lookup ''AABBCC'' = None \<or>
         (\<exists>v ts. cache fresh_lookup ''AABBCC'' = Some (v, ts) \<and>
                  \<not> clock world0 - ts < CACHE_EXPIRY)"
    by (simp add: fresh_lookup_def)
  have h3: "''AABBCC'' \<noteq> []" by simp
  note t = provider_order[OF mac0_nonempty normalize_mac0 h3 h4, of env_fallback]
  have pre: "(\<forall>r1. fetch env_fallback (MACVENDORS_URL @ ''AABBCC'') = Inr r1 \<longrightarrow>
                 status_code r1 \<noteq> 200) \<and>
            fetch env_fallback (MACLOOKUP_URL @ ''AABBCC'') = Inr acme_envelope \<and>
            status_code acme_envelope = 200 \<and>
            json acme_envelope =
              Inr (PDict [(''success'', PBool True),
                          (''data'', PDict [(''vendor'', PStr ''Acme'')])]) \<and>
            map_of [(''success'', PBool True), (''data'', PDict [(''vendor'', PStr ''Acme'')])]
              ''success'' = Some (PBool True) \<and>
            truthy (PBool True) \<and>
            map_of [(''success'', PBool True), (''data'', PDict [(''vendor'', PStr ''Acme'')])]
              ''data'' = Some (PDict [(''vendor'', PStr ''Acme'')]) \<and>
            map_of [(''vendor'', PStr ''Acme'')] ''vendor'' = Some (PStr ''Acme'')"
    by (simp add: env_fallback_fetch1 env_fallback_fetch2 http500_def acme_envelope_def)
  from t pre have a: "fst (lookup env_fallback mac0 fresh_lookup world0) = PStr ''Acme'' \<and>
            map snd (calls (snd (snd (lookup env_fallback mac0 fresh_lookup world0)))) =
              map snd (calls world0) @ [MACVENDORS_URL @ ''AABBCC'', MACLOOKUP_URL @ ''AABBCC'']"
    by blast
  from t a have b:
    "cache (fst (snd (lookup env_fallback mac0 fresh_lookup world0))) ''AABBCC'' =
       Some (PStr ''Acme'', clock world0) \<and>
     (disk env_fallback = Written \<longrightarrow>
        cache_file (snd (snd (lookup env_fallback mac0 fresh_lookup world0))) =
          Some (cache (fst (snd (lookup env_fallback mac0 fresh_lookup world0)))))"
    by simp
  from a b show ?thesis by (simp add: world0_def env_fallback_def)
qed

subsection \<open>The spacing of the requests\<close>

lemma lookup_online_times:
  assumes "\<forall>u. 0 \<le> latency env u"
  shows "\<exists>new. calls (snd (lookup_online env mac w)) = calls w @ new \<and>
           list_all (\<lambda>c. clock w \<le> fst c \<and> fst c \<le> clock (snd (lookup_online env mac w))) new"
proof -
  have a: "0 \<le> latency env (MACVENDORS_URL @ mac)" "0 \<le> latency env (MACLOOKUP_URL @ mac)"
    using assms by auto
  then show ?thesis
    by (auto simp: lookup_online_unfold Let_def split: option.splits)
qed

lemma rate_limit_clock:
  assumes "0 \<le> oversleep env"
  shows "last_request_time self + request_interval \<le> clock (rate_limit env (clock w) self w)"
  using assms by (simp add: rate_limit_def sleep_def)

lemma lookup_miss_spacing:
  assumes lat: "\<forall>u. 0 \<le> latency env u" and os: "0 \<le> oversleep env"
    and before: "calls_before self w"
  shows "\<exists>new. calls (snd (snd (lookup_miss env oui (clock w) self w))) = calls w @ new \<and>
           list_all (\<lambda>c. last_request_time self + request_interval \<le> fst c) new \<and>
           calls_before (fst (snd (lookup_miss env oui (clock w) self w)))
             (snd (snd (lookup_miss env oui (clock w) self w)))"
proof -
  let ?w1 = "rate_limit env (clock w) self w"
  obtain v w2 where lo: "lookup_online env oui ?w1 = (v, w2)"
    by (cases "lookup_online env oui ?w1") auto
  from lookup_online_times[OF lat, of oui ?w1] lo
  obtain new where new: "calls w2 = calls w @ new"
    "list_all (\<lambda>c. clock ?w1 \<le> fst c \<and> fst c \<le> clock w2) new"
    by (auto simp: rate_limit_calls)
  have c1: "last_request_time self + request_interval \<le> clock ?w1"
    by (rule rate_limit_clock[OF os])
  have sp: "list_all (\<lambda>c. last_request_time self + request_interval \<le> fst c) new"
    using new(2) c1 by (auto simp: list_all_iff)
  have le: "clock ?w1 \<le> clock w2"
    using lat lo by (auto simp: lookup_online_unfold Let_def add_increasing2 split: option.splits)
  have old: "list_all (\<lambda>c. fst c \<le> clock w2) (calls w)"
    using before c1 le by (auto simp: calls_before_def list_all_iff request_interval_def)
  have new2: "list_all (\<lambda>c. fst c \<le> clock w2) new"
    using new(2) by (auto simp: list_all_iff)
  have res: "calls (snd (snd (lookup_miss env oui (clock w) self w))) = calls w2"
    "last_request_time (fst (snd (lookup_miss env oui (clock w) self w))) = clock w2"
    by (simp_all add: lookup_miss_def Let_def lo save_cache_calls)
  show ?thesis
    using new(1) sp old new2 by (intro exI[of _ new]) (simp add: res calls_before_def)
qed

text \<open>
  C9. The claim: the requests are serialised under a lock, and any two requests are at
  least one second apart. The code takes no lock anywhere, and within one lookup the
  request to the second provider follows the request to the first with no wait: with both
  providers answering HTTP 500 after a tenth of a second, the requests of one lookup are
  issued at 1000 and at 1000.1.
\<close>

theorem fallback_not_spaced:
  "\<not> spaced (calls (snd (snd (lookup env_down mac0 fresh_lookup world0))))"
  by (simp add: lookup_down_unknown request_interval_def)

text \<open>
  C9, as amended. For one caller at a time, when no request takes negative time and
  \<^verbatim>\<open>time.sleep\<close> sleeps at least as long as asked: if every request logged so far was
  issued no later than \<open>last_request_time\<close>, then every request of the next lookup is issued
  at least \<open>request_interval\<close> (one second) after \<open>last_request_time\<close>, hence at least one
  second after every earlier request, and afterwards every logged request is again no
  later than the new \<open>last_request_time\<close>. Nothing is said of the two requests of one
  lookup, nor of concurrent callers.
\<close>

theorem lookups_spaced:
  assumes "\<forall>u. 0 \<le> latency env u" and "0 \<le> oversleep env" and "calls_before self w"
  shows "\<exists>new. calls (snd (snd (lookup env mac self w))) = calls w @ new \<and>
           list_all (\<lambda>c. last_request_time self + request_interval \<le> fst c) new \<and>
           (\<forall>c \<in> set (calls w). \<forall>c' \<in> set new. fst c + request_interval \<le> fst c') \<and>
           calls_before (fst (snd (lookup env mac self w))) (snd (snd (lookup env mac self w)))"
proof -
  have main: "\<exists>new. calls (snd (snd (lookup env mac self w))) = calls w @ new \<and>
           list_all (\<lambda>c. last_request_time self + request_interval \<le> fst c) new \<and>
           calls_before (fst (snd (lookup env mac self w))) (snd (snd (lookup env mac self w)))"
  proof (cases "lookup env mac self w = (fst (lookup env mac self w), self, w)")
    case True
    then have "snd (snd (lookup env mac self w)) = w" "fst (snd (lookup env mac self w)) = self"
      by (metis snd_conv, metis fst_conv snd_conv)
    then show ?thesis using assms(3) by (intro exI[of _ "[]"]) simp
  next
    case False
    then have "lookup env mac self w = lookup_miss env (normalize_mac mac) (clock w) self w"
      by (auto simp: lookup_def Let_def split: if_splits option.splits)
    then show ?thesis using lookup_miss_spacing[OF assms, of "normalize_mac mac"] by simp
  qed
  then obtain new where n: "calls (snd (snd (lookup env mac self w))) = calls w @ new"
    "list_all (\<lambda>c. last_request_time self + request_interval \<le> fst c) new"
    "calls_before (fst (snd (lookup env mac self w))) (snd (snd (lookup env mac self w)))"
    by blast
  have "\<forall>c \<in> set (calls w). \<forall>c' \<in> set new. fst c + request_interval \<le> fst c'"
    using n(2) assms(3) by (fastforce simp: calls_before_def list_all_iff)
  with n show ?thesis by blast
qed

theorem lookups_spaced_witness:
  "calls_before (fst (snd (lookup env_down mac0 fresh_lookup world0)))
     (snd (snd (lookup env_down mac0 fresh_lookup world0))) \<and>
   (\<exists>new. calls (snd (snd (lookup env_down mac1
                     (fst (snd (lookup env_down mac0 fresh_lookup world0)))
                     (snd (snd (lookup env_down mac0 fresh_lookup world0)))))) =
            [(1000, MACVENDORS_URL @ ''AABBCC''), (1000 + 1 / 10, MACLOOKUP_URL @ ''AABBCC'')] @ new \<and>
          list_all (\<lambda>c. 1001 + 2 / 10 \<le> fst c) new)"
proof -
  have lat: "\<forall>u. 0 \<le> latency env_down u" by (simp add: env_down_def)
  have os: "0 \<le> oversleep env_down" by (simp add: env_down_def)
  have before: "calls_before (fst (snd (lookup env_down mac0 fresh_lookup world0)))
     (snd (snd (lookup env_down mac0 fresh_lookup world0)))"
    by (simp add: lookup_down_unknown calls_before_def)
  from lookups_spaced[OF lat os before, of mac1] before show ?thesis
    by (auto simp: lookup_down_unknown request_interval_def)
qed


section \<open>Properties of passive discovery, promotion and the probe\<close>

subsection \<open>The steps and loops of a pass\<close>

lemma observed_Nil: "observed [] = {}"
  by (simp add: observed_def)

lemma observed_Cons:
  "observed (e # es) =
     (if e_mac_address e = [] then observed es else insert (upper (e_mac_address e)) (observed es))"
  by (simp add: observed_def)

lemma observed_iff:
  "m \<in> observed es \<longleftrightarrow> (\<exists>e \<in> set es. e_mac_address e \<noteq> [] \<and> upper (e_mac_address e) = m)"
  by (auto simp: observed_def)

lemma first_seen_refresh: "first_seen (refresh_is_new now d) = first_seen d"
  by (simp add: refresh_is_new_def)
lemma hostname_refresh: "hostname (refresh_is_new now d) = hostname d"
  by (simp add: refresh_is_new_def)
lemma last_seen_refresh: "last_seen (refresh_is_new now d) = last_seen d"
  by (simp add: refresh_is_new_def)
lemma is_new_refresh:
  "is_new (refresh_is_new now d) = (total_seconds (now - first_seen d) < NEW_DEVICE_THRESHOLD)"
  by (simp add: refresh_is_new_def)

lemma process_arp_cur:
  "current_macs (process_arp env now e st) =
     (if e_mac_address e = [] then current_macs st
      else insert (upper (e_mac_address e)) (current_macs st))"
  by (simp add: process_arp_def Let_def split: option.splits)

lemma process_dhcp_cur:
  "current_macs (process_dhcp env now l st) =
     (if e_mac_address l = [] then current_macs st
      else insert (upper (e_mac_address l)) (current_macs st))"
  by (simp add: process_dhcp_def Let_def split: option.splits)

lemma process_arp_other:
  "e_mac_address e = [] \<or> upper (e_mac_address e) \<noteq> m \<Longrightarrow>
   devices (process_arp env now e st) m = devices st m"
  by (auto simp: process_arp_def Let_def split: option.splits)

lemma process_dhcp_other:
  "e_mac_address l = [] \<or> upper (e_mac_address l) \<noteq> m \<Longrightarrow>
   devices (process_dhcp env now l st) m = devices st m"
  by (auto simp: process_dhcp_def Let_def split: option.splits)

lemma process_arp_present:
  "e_mac_address e \<noteq> [] \<Longrightarrow> upper (e_mac_address e) = m \<Longrightarrow> devices st m = Some d \<Longrightarrow>
   devices (process_arp env now e st) m =
     Some (refresh_is_new now (d\<lparr>last_seen := now, ip_address := e_address e\<rparr>))"
  by (auto simp: process_arp_def Let_def)

lemma process_dhcp_present:
  "e_mac_address l \<noteq> [] \<Longrightarrow> upper (e_mac_address l) = m \<Longrightarrow> devices st m = Some d \<Longrightarrow>
   devices (process_dhcp env now l st) m =
     Some (refresh_is_new now
       (if e_hostname l \<noteq> [] \<and> hostname d = []
        then d\<lparr>last_seen := now, ip_address := e_address l, hostname := e_hostname l\<rparr>
        else d\<lparr>last_seen := now, ip_address := e_address l\<rparr>))"
  by (auto simp: process_dhcp_def Let_def)

lemma process_arp_absent:
  "e_mac_address e \<noteq> [] \<Longrightarrow> upper (e_mac_address e) = m \<Longrightarrow> devices st m = None \<Longrightarrow>
   devices (process_arp env now e st) m =
     Some (extract_device_info env e None ''arp'' (e_device_id e))"
  by (auto simp: process_arp_def Let_def)

lemma process_dhcp_absent:
  "e_mac_address l \<noteq> [] \<Longrightarrow> upper (e_mac_address l) = m \<Longrightarrow> devices st m = None \<Longrightarrow>
   devices (process_dhcp env now l st) m =
     Some (extract_device_info env l (Some (e_hostname l)) ''dhcp'' (e_device_id l))"
  by (auto simp: process_dhcp_def Let_def)

lemma extract_first_seen:
  "first_seen (extract_device_info env e h src i) = datetime_now env (upper (e_mac_address e))"
  by (simp add: extract_device_info_def Let_def split: prod.splits)

lemma extract_last_seen:
  "last_seen (extract_device_info env e h src i) = datetime_now env (upper (e_mac_address e))"
  by (simp add: extract_device_info_def Let_def split: prod.splits)

lemma extract_is_new: "is_new (extract_device_info env e h src i)"
  by (simp add: extract_device_info_def Let_def split: prod.splits)

lemma extract_mac:
  "mac_address (extract_device_info env e h src i) = upper (e_mac_address e)"
  by (simp add: extract_device_info_def Let_def split: prod.splits)

lemma extract_hostname_arp: "hostname (extract_device_info env e h ''arp'' i) = []"
  by (simp add: extract_device_info_def Let_def split: prod.splits)

lemma extract_hostname_dhcp: "hostname (extract_device_info env e (Some h) ''dhcp'' i) = h"
  by (simp add: extract_device_info_def Let_def split: prod.splits)

lemma arp_loop_cur: "current_macs (arp_loop env now es st) = current_macs st \<union> observed es"
  by (induction es arbitrary: st) (auto simp: observed_Nil observed_Cons process_arp_cur)

lemma dhcp_loop_cur: "current_macs (dhcp_loop env now ls st) = current_macs st \<union> observed ls"
  by (induction ls arbitrary: st) (auto simp: observed_Nil observed_Cons process_dhcp_cur)

lemma process_arp_step:
  assumes "e_mac_address e \<noteq> []" "upper (e_mac_address e) = m" "devices st m = Some d"
  shows "\<exists>d1. devices (process_arp env now e st) m = Some d1 \<and> first_seen d1 = first_seen d \<and>
           mac_address d1 = mac_address d \<and> hostname d1 = hostname d \<and> last_seen d1 = now \<and>
           is_new d1 = (total_seconds (now - first_seen d) < NEW_DEVICE_THRESHOLD)"
  using assms by (simp add: process_arp_present refresh_is_new_def)

lemma process_dhcp_step:
  assumes "e_mac_address l \<noteq> []" "upper (e_mac_address l) = m" "devices st m = Some d"
  shows "\<exists>d1. devices (process_dhcp env now l st) m = Some d1 \<and> first_seen d1 = first_seen d \<and>
           mac_address d1 = mac_address d \<and> last_seen d1 = now \<and>
           is_new d1 = (total_seconds (now - first_seen d) < NEW_DEVICE_THRESHOLD) \<and>
           (if e_hostname l \<noteq> [] \<and> hostname d = [] then hostname d1 = e_hostname l
            else hostname d1 = hostname d)"
  using assms by (simp add: process_dhcp_present refresh_is_new_def)

lemma arp_loop_present:
  "devices st m = Some d \<Longrightarrow>
   \<exists>d'. devices (arp_loop env now es st) m = Some d' \<and> first_seen d' = first_seen d \<and>
        mac_address d' = mac_address d \<and> hostname d' = hostname d \<and>
        (if m \<in> observed es
         then last_seen d' = now \<and>
              is_new d' = (total_seconds (now - first_seen d) < NEW_DEVICE_THRESHOLD)
         else d' = d)"
proof (induction es arbitrary: st d)
  case Nil
  then show ?case by (simp add: observed_Nil)
next
  case (Cons e es)
  show ?case
  proof (cases "e_mac_address e \<noteq> [] \<and> upper (e_mac_address e) = m")
    case True
    from process_arp_step[of e m st d env now] True Cons.prems
    obtain d1 where d1: "devices (process_arp env now e st) m = Some d1"
      "first_seen d1 = first_seen d" "mac_address d1 = mac_address d"
      "hostname d1 = hostname d" "last_seen d1 = now"
      "is_new d1 = (total_seconds (now - first_seen d) < NEW_DEVICE_THRESHOLD)" by blast
    from Cons.IH[OF d1(1)] obtain d' where d':
      "devices (arp_loop env now es (process_arp env now e st)) m = Some d'"
      "first_seen d' = first_seen d1" "mac_address d' = mac_address d1"
      "hostname d' = hostname d1"
      "if m \<in> observed es
         then last_seen d' = now \<and>
              is_new d' = (total_seconds (now - first_seen d1) < NEW_DEVICE_THRESHOLD)
         else d' = d1" by blast
    have obs: "m \<in> observed (e # es)" using True by (auto simp: observed_Cons)
    have rest: "last_seen d' = now \<and>
              is_new d' = (total_seconds (now - first_seen d) < NEW_DEVICE_THRESHOLD)"
      using d'(5) d1 by (cases "m \<in> observed es") simp_all
    show ?thesis using d'(1-4) d1(2-4) rest obs by simp
  next
    case False
    then have s: "devices (process_arp env now e st) m = Some d"
      using Cons.prems by (auto simp: process_arp_other)
    have obs: "m \<in> observed (e # es) \<longleftrightarrow> m \<in> observed es"
      using False by (auto simp: observed_Cons)
    from Cons.IH[OF s] show ?thesis by (simp add: obs)
  qed
qed

lemma lease_names_Cons_other:
  "\<not> (e_mac_address l \<noteq> [] \<and> upper (e_mac_address l) = m) \<Longrightarrow>
   lease_names m (l # ls) = lease_names m ls"
  by (auto simp: lease_names_def)

lemma lease_names_mono: "h \<in> lease_names m ls \<Longrightarrow> h \<in> lease_names m (l # ls)"
  by (auto simp: lease_names_def)

lemma lease_names_own:
  "e_mac_address l \<noteq> [] \<Longrightarrow> upper (e_mac_address l) = m \<Longrightarrow> e_hostname l \<noteq> [] \<Longrightarrow>
   e_hostname l \<in> lease_names m (l # ls)"
  by (simp add: lease_names_def)

lemma lease_names_observed: "h \<in> lease_names m ls \<Longrightarrow> m \<in> observed ls"
  by (auto simp: lease_names_def observed_def)

lemma dhcp_loop_present:
  "devices st m = Some d \<Longrightarrow>
   \<exists>d'. devices (dhcp_loop env now ls st) m = Some d' \<and> first_seen d' = first_seen d \<and>
        mac_address d' = mac_address d \<and>
        (hostname d' = hostname d \<or> (hostname d = [] \<and> hostname d' \<in> lease_names m ls)) \<and>
        (if m \<in> observed ls
         then last_seen d' = now \<and>
              is_new d' = (total_seconds (now - first_seen d) < NEW_DEVICE_THRESHOLD)
         else d' = d)"
proof (induction ls arbitrary: st d)
  case Nil
  then show ?case by (simp add: observed_Nil)
next
  case (Cons l ls)
  show ?case
  proof (cases "e_mac_address l \<noteq> [] \<and> upper (e_mac_address l) = m")
    case True
    from process_dhcp_step[of l m st d env now] True Cons.prems
    obtain d1 where d1: "devices (process_dhcp env now l st) m = Some d1"
      "first_seen d1 = first_seen d" "mac_address d1 = mac_address d" "last_seen d1 = now"
      "is_new d1 = (total_seconds (now - first_seen d) < NEW_DEVICE_THRESHOLD)"
      "if e_hostname l \<noteq> [] \<and> hostname d = [] then hostname d1 = e_hostname l
       else hostname d1 = hostname d" by blast
    from Cons.IH[OF d1(1)] obtain d' where d':
      "devices (dhcp_loop env now ls (process_dhcp env now l st)) m = Some d'"
      "first_seen d' = first_seen d1" "mac_address d' = mac_address d1"
      "hostname d' = hostname d1 \<or> (hostname d1 = [] \<and> hostname d' \<in> lease_names m ls)"
      "if m \<in> observed ls
         then last_seen d' = now \<and>
              is_new d' = (total_seconds (now - first_seen d1) < NEW_DEVICE_THRESHOLD)
         else d' = d1" by blast
    have obs: "m \<in> observed (l # ls)" using True by (auto simp: observed_Cons)
    have host: "hostname d' = hostname d \<or>
                (hostname d = [] \<and> hostname d' \<in> lease_names m (l # ls))"
    proof (cases "e_hostname l \<noteq> [] \<and> hostname d = []")
      case fill: True
      then have h1: "hostname d1 = e_hostname l" "hostname d1 \<noteq> []" using d1(6) by simp_all
      then have "hostname d' = e_hostname l" using d'(4) by auto
      moreover have "e_hostname l \<in> lease_names m (l # ls)"
        using True fill by (simp add: lease_names_own)
      ultimately show ?thesis using fill by simp
    next
      case keep: False
      then have h1: "hostname d1 = hostname d" using d1(6) by simp
      from d'(4) show ?thesis
      proof
        assume "hostname d' = hostname d1" then show ?thesis using h1 by simp
      next
        assume "hostname d1 = [] \<and> hostname d' \<in> lease_names m ls"
        then show ?thesis using h1 by (simp add: lease_names_mono)
      qed
    qed
    have rest: "last_seen d' = now \<and>
              is_new d' = (total_seconds (now - first_seen d) < NEW_DEVICE_THRESHOLD)"
      using d'(5) d1 by (cases "m \<in> observed ls") simp_all
    show ?thesis using d'(1-3) d1(2,3) host rest obs by simp
  next
    case False
    then have s: "devices (process_dhcp env now l st) m = Some d"
      using Cons.prems by (auto simp: process_dhcp_other)
    have obs: "m \<in> observed (l # ls) \<longleftrightarrow> m \<in> observed ls"
      using False by (auto simp: observed_Cons)
    from Cons.IH[OF s] show ?thesis by (simp add: obs lease_names_Cons_other[OF False])
  qed
qed

lemma arp_loop_absent:
  "devices st m = None \<Longrightarrow>
   (if m \<in> observed es
    then \<exists>d'. devices (arp_loop env now es st) m = Some d' \<and>
              first_seen d' = datetime_now env m \<and> hostname d' = [] \<and> mac_address d' = m \<and>
              is_new d' = (total_seconds (last_seen d' - first_seen d') < NEW_DEVICE_THRESHOLD)
    else devices (arp_loop env now es st) m = None)"
proof (induction es arbitrary: st)
  case Nil
  then show ?case by (simp add: observed_Nil)
next
  case (Cons e es)
  show ?case
  proof (cases "e_mac_address e \<noteq> [] \<and> upper (e_mac_address e) = m")
    case True
    define d1 where "d1 = extract_device_info env e None ''arp'' (e_device_id e)"
    have s: "devices (process_arp env now e st) m = Some d1"
      using True Cons.prems by (simp add: process_arp_absent d1_def)
    have p: "first_seen d1 = datetime_now env m" "hostname d1 = []" "mac_address d1 = m"
      using True by (simp_all add: d1_def extract_first_seen extract_hostname_arp extract_mac)
    have q: "is_new d1 = (total_seconds (last_seen d1 - first_seen d1) < NEW_DEVICE_THRESHOLD)"
      by (simp add: d1_def extract_first_seen extract_last_seen extract_is_new
          total_seconds_def NEW_DEVICE_THRESHOLD_def)
    from arp_loop_present[OF s, of env now es] obtain d' where d':
      "devices (arp_loop env now es (process_arp env now e st)) m = Some d'"
      "first_seen d' = first_seen d1" "mac_address d' = mac_address d1"
      "hostname d' = hostname d1"
      "if m \<in> observed es
         then last_seen d' = now \<and>
              is_new d' = (total_seconds (now - first_seen d1) < NEW_DEVICE_THRESHOLD)
         else d' = d1" by blast
    have "is_new d' = (total_seconds (last_seen d' - first_seen d') < NEW_DEVICE_THRESHOLD)"
      using d'(2,5) q by (cases "m \<in> observed es") simp_all
    moreover have "m \<in> observed (e # es)" using True by (auto simp: observed_Cons)
    ultimately show ?thesis using p d'(1-4) by simp
  next
    case False
    then have s: "devices (process_arp env now e st) m = None"
      using Cons.prems by (auto simp: process_arp_other)
    have obs: "m \<in> observed (e # es) \<longleftrightarrow> m \<in> observed es"
      using False by (auto simp: observed_Cons)
    from Cons.IH[OF s] show ?thesis by (simp add: obs)
  qed
qed

lemma dhcp_loop_absent:
  "devices st m = None \<Longrightarrow>
   (if m \<in> observed ls
    then \<exists>d'. devices (dhcp_loop env now ls st) m = Some d' \<and>
              first_seen d' = datetime_now env m \<and> mac_address d' = m \<and>
              is_new d' = (total_seconds (last_seen d' - first_seen d') < NEW_DEVICE_THRESHOLD)
    else devices (dhcp_loop env now ls st) m = None)"
proof (induction ls arbitrary: st)
  case Nil
  then show ?case by (simp add: observed_Nil)
next
  case (Cons l ls)
  show ?case
  proof (cases "e_mac_address l \<noteq> [] \<and> upper (e_mac_address l) = m")
    case True
    define d1 where "d1 = extract_device_info env l (Some (e_hostname l)) ''dhcp'' (e_device_id l)"
    have s: "devices (process_dhcp env now l st) m = Some d1"
      using True Cons.prems by (simp add: process_dhcp_absent d1_def)
    have p: "first_seen d1 = datetime_now env m" "mac_address d1 = m"
      using True by (simp_all add: d1_def extract_first_seen extract_mac)
    have q: "is_new d1 = (total_seconds (last_seen d1 - first_seen d1) < NEW_DEVICE_THRESHOLD)"
      by (simp add: d1_def extract_first_seen extract_last_seen extract_is_new
          total_seconds_def NEW_DEVICE_THRESHOLD_def)
    from dhcp_loop_present[OF s, of env now ls] obtain d' where d':
      "devices (dhcp_loop env now ls (process_dhcp env now l st)) m = Some d'"
      "first_seen d' = first_seen d1" "mac_address d' = mac_address d1"
      "if m \<in> observed ls
         then last_seen d' = now \<and>
              is_new d' = (total_seconds (now - first_seen d1) < NEW_DEVICE_THRESHOLD)
         else d' = d1" by blast
    have "is_new d' = (total_seconds (last_seen d' - first_seen d') < NEW_DEVICE_THRESHOLD)"
      using d'(2,4) q by (cases "m \<in> observed ls") simp_all
    moreover have "m \<in> observed (l # ls)" using True by (auto simp: observed_Cons)
    ultimately show ?thesis using p d'(1-3) by simp
  next
    case False
    then have s: "devices (process_dhcp env now l st) m = None"
      using Cons.prems by (auto simp: process_dhcp_other)
    have obs: "m \<in> observed (l # ls) \<longleftrightarrow> m \<in> observed ls"
      using False by (auto simp: observed_Cons)
    from Cons.IH[OF s] show ?thesis by (simp add: obs)
  qed
qed

lemma detect_snd:
  "snd (detect_new_devices env now arp_store dhcp_store devs) =
     evict now (current_macs (after_loops env now arp_store dhcp_store devs))
       (devices (after_loops env now arp_store dhcp_store devs))"
  by (simp add: detect_new_devices_def after_loops_def Let_def)

lemma after_loops_cur:
  "current_macs (after_loops env now arp_store dhcp_store devs) = observed_macs arp_store dhcp_store"
  by (simp add: after_loops_def dhcp_loop_cur arp_loop_cur observed_macs_def)

lemma after_loops_present:
  assumes "devs m = Some d"
  shows "\<exists>d'. devices (after_loops env now arp_store dhcp_store devs) m = Some d' \<and>
           first_seen d' = first_seen d \<and> mac_address d' = mac_address d \<and>
           (hostname d' = hostname d \<or>
            (hostname d = [] \<and> hostname d' \<in> lease_names m (get_all_dhcp_leases dhcp_store))) \<and>
           (if m \<in> observed_macs arp_store dhcp_store
            then last_seen d' = now \<and>
                 is_new d' = (total_seconds (now - first_seen d) < NEW_DEVICE_THRESHOLD)
            else d' = d)"
proof -
  let ?st0 = "\<lparr>devices = devs, new_macs = [], current_macs = {}\<rparr>"
  let ?es = "get_all_arp_entries arp_store"
  let ?ls = "get_all_dhcp_leases dhcp_store"
  have s0: "devices ?st0 m = Some d" using assms by simp
  from arp_loop_present[OF s0, of env now ?es] obtain d1 where d1:
    "devices (arp_loop env now ?es ?st0) m = Some d1" "first_seen d1 = first_seen d"
    "mac_address d1 = mac_address d" "hostname d1 = hostname d"
    "if m \<in> observed ?es
         then last_seen d1 = now \<and>
              is_new d1 = (total_seconds (now - first_seen d) < NEW_DEVICE_THRESHOLD)
         else d1 = d" by blast
  from dhcp_loop_present[OF d1(1), of env now ?ls] obtain d2 where d2:
    "devices (dhcp_loop env now ?ls (arp_loop env now ?es ?st0)) m = Some d2"
    "first_seen d2 = first_seen d1" "mac_address d2 = mac_address d1"
    "hostname d2 = hostname d1 \<or> (hostname d1 = [] \<and> hostname d2 \<in> lease_names m ?ls)"
    "if m \<in> observed ?ls
         then last_seen d2 = now \<and>
              is_new d2 = (total_seconds (now - first_seen d1) < NEW_DEVICE_THRESHOLD)
         else d2 = d1" by blast
  have rest: "if m \<in> observed_macs arp_store dhcp_store
            then last_seen d2 = now \<and>
                 is_new d2 = (total_seconds (now - first_seen d) < NEW_DEVICE_THRESHOLD)
            else d2 = d"
    using d1(2,5) d2(5) by (auto simp: observed_macs_def split: if_splits)
  show ?thesis
    using d2(1-4) d1(2-4) rest by (simp add: after_loops_def)
qed

lemma after_loops_absent:
  assumes "devs m = None"
  shows "if m \<in> observed_macs arp_store dhcp_store
         then \<exists>d'. devices (after_loops env now arp_store dhcp_store devs) m = Some d' \<and>
                first_seen d' = datetime_now env m \<and> mac_address d' = m \<and>
                is_new d' = (total_seconds (last_seen d' - first_seen d') < NEW_DEVICE_THRESHOLD) \<and>
                (m \<notin> observed (get_all_dhcp_leases dhcp_store) \<longrightarrow> hostname d' = [])
         else devices (after_loops env now arp_store dhcp_store devs) m = None"
proof -
  let ?st0 = "\<lparr>devices = devs, new_macs = [], current_macs = {}\<rparr>"
  let ?es = "get_all_arp_entries arp_store"
  let ?ls = "get_all_dhcp_leases dhcp_store"
  have s0: "devices ?st0 m = None" using assms by simp
  show ?thesis
  proof (cases "m \<in> observed ?es")
    case True
    from arp_loop_absent[OF s0, of ?es env now] True
    have "\<exists>d'. devices (arp_loop env now ?es ?st0) m = Some d' \<and>
              first_seen d' = datetime_now env m \<and> hostname d' = [] \<and> mac_address d' = m \<and>
              is_new d' = (total_seconds (last_seen d' - first_seen d') < NEW_DEVICE_THRESHOLD)"
      by (simp only: if_True)
    then obtain d1 where d1:
      "devices (arp_loop env now ?es ?st0) m = Some d1" "first_seen d1 = datetime_now env m"
      "hostname d1 = []" "mac_address d1 = m"
      "is_new d1 = (total_seconds (last_seen d1 - first_seen d1) < NEW_DEVICE_THRESHOLD)"
      by blast
    from dhcp_loop_present[OF d1(1), of env now ?ls] obtain d2 where d2:
      "devices (dhcp_loop env now ?ls (arp_loop env now ?es ?st0)) m = Some d2"
      "first_seen d2 = first_seen d1" "mac_address d2 = mac_address d1"
      "if m \<in> observed ?ls
         then last_seen d2 = now \<and>
              is_new d2 = (total_seconds (now - first_seen d1) < NEW_DEVICE_THRESHOLD)
         else d2 = d1" by blast
    have "m \<notin> observed ?ls \<longrightarrow> hostname d2 = []" using d2(4) d1(3) by simp
    moreover have "is_new d2 = (total_seconds (last_seen d2 - first_seen d2) < NEW_DEVICE_THRESHOLD)"
      using d2(2,4) d1(5) by (cases "m \<in> observed ?ls") simp_all
    ultimately have "devices (after_loops env now arp_store dhcp_store devs) m = Some d2 \<and>
                first_seen d2 = datetime_now env m \<and> mac_address d2 = m \<and>
                is_new d2 = (total_seconds (last_seen d2 - first_seen d2) < NEW_DEVICE_THRESHOLD) \<and>
                (m \<notin> observed (get_all_dhcp_leases dhcp_store) \<longrightarrow> hostname d2 = [])"
      using d1(2,4) d2(1-3) by (simp add: after_loops_def)
    then have "\<exists>d'. devices (after_loops env now arp_store dhcp_store devs) m = Some d' \<and>
                first_seen d' = datetime_now env m \<and> mac_address d' = m \<and>
                is_new d' = (total_seconds (last_seen d' - first_seen d') < NEW_DEVICE_THRESHOLD) \<and>
                (m \<notin> observed (get_all_dhcp_leases dhcp_store) \<longrightarrow> hostname d' = [])"
      by blast
    moreover have "m \<in> observed_macs arp_store dhcp_store"
      using True by (simp add: observed_macs_def)
    ultimately show ?thesis by (simp only: if_True)
  next
    case False
    from arp_loop_absent[OF s0, of ?es env now] False
    have s1: "devices (arp_loop env now ?es ?st0) m = None" by simp
    show ?thesis
    proof (cases "m \<in> observed ?ls")
      case in_ls: True
      from dhcp_loop_absent[OF s1, of ?ls env now] in_ls
      have "\<exists>d'. devices (dhcp_loop env now ?ls (arp_loop env now ?es ?st0)) m = Some d' \<and>
              first_seen d' = datetime_now env m \<and> mac_address d' = m \<and>
              is_new d' = (total_seconds (last_seen d' - first_seen d') < NEW_DEVICE_THRESHOLD)"
        by (simp only: if_True)
      then obtain d2 where
        "devices (after_loops env now arp_store dhcp_store devs) m = Some d2 \<and>
         first_seen d2 = datetime_now env m \<and> mac_address d2 = m \<and>
         is_new d2 = (total_seconds (last_seen d2 - first_seen d2) < NEW_DEVICE_THRESHOLD)"
        unfolding after_loops_def by blast
      then have "\<exists>d'. devices (after_loops env now arp_store dhcp_store devs) m = Some d' \<and>
                first_seen d' = datetime_now env m \<and> mac_address d' = m \<and>
                is_new d' = (total_seconds (last_seen d' - first_seen d') < NEW_DEVICE_THRESHOLD) \<and>
                (m \<notin> observed (get_all_dhcp_leases dhcp_store) \<longrightarrow> hostname d' = [])"
        using in_ls by blast
      moreover have "m \<in> observed_macs arp_store dhcp_store"
        using in_ls by (simp add: observed_macs_def)
      ultimately show ?thesis by (simp only: if_True)
    next
      case out_ls: False
      from dhcp_loop_absent[OF s1, of ?ls env now] out_ls
      have "devices (after_loops env now arp_store dhcp_store devs) m = None"
        by (simp add: after_loops_def)
      moreover have "m \<notin> observed_macs arp_store dhcp_store"
        using False out_ls by (simp add: observed_macs_def)
      ultimately show ?thesis by simp
    qed
  qed
qed

lemma evict_apply:
  "evict now cur devs m =
     (case devs m of None \<Rightarrow> None
      | Some d \<Rightarrow> if last_seen d < now - timedelta_days 1 \<and> m \<notin> cur then None else Some d)"
  by (simp add: evict_def Let_def)

lemma after_loops_absent_observed:
  assumes "devs m = None" "m \<in> observed_macs arp_store dhcp_store"
  shows "\<exists>d'. devices (after_loops env now arp_store dhcp_store devs) m = Some d' \<and>
                first_seen d' = datetime_now env m \<and> mac_address d' = m \<and>
                is_new d' = (total_seconds (last_seen d' - first_seen d') < NEW_DEVICE_THRESHOLD) \<and>
                (m \<notin> observed (get_all_dhcp_leases dhcp_store) \<longrightarrow> hostname d' = [])"
  using after_loops_absent[of devs m arp_store dhcp_store env now] assms
  by (simp only: if_True)

lemma after_loops_absent_unobserved:
  assumes "devs m = None" "m \<notin> observed_macs arp_store dhcp_store"
  shows "devices (after_loops env now arp_store dhcp_store devs) m = None"
  using after_loops_absent[of devs m arp_store dhcp_store env now] assms
  by (simp only: if_False)

lemma detect_kept:
  assumes "devices (after_loops env now arp_store dhcp_store devs) m = Some d2"
    "m \<in> observed_macs arp_store dhcp_store"
  shows "snd (detect_new_devices env now arp_store dhcp_store devs) m = Some d2"
  using assms by (simp add: detect_snd evict_apply after_loops_cur)

lemma detect_from_loops:
  assumes "snd (detect_new_devices env now arp_store dhcp_store devs) m = Some d'"
  shows "devices (after_loops env now arp_store dhcp_store devs) m = Some d'"
  using assms by (auto simp: detect_snd evict_apply split: option.splits if_splits)

lemma upper_chr_idem: "upper_chr (upper_chr c) = upper_chr c"
  by (auto simp: upper_chr_def Let_def)

lemma upper_idem: "upper (upper s) = upper s"
  by (simp add: upper_def upper_chr_idem)

lemma observed_upper: "m \<in> observed es \<Longrightarrow> upper m = m"
  by (auto simp: observed_iff upper_idem)

lemma detect_keys:
  assumes "snd (detect_new_devices env now arp_store dhcp_store devs) m \<noteq> None"
  shows "devs m \<noteq> None \<or> m \<in> observed_macs arp_store dhcp_store"
proof (rule ccontr)
  assume "\<not> (devs m \<noteq> None \<or> m \<in> observed_macs arp_store dhcp_store)"
  then have n: "devs m = None" and o: "m \<notin> observed_macs arp_store dhcp_store" by simp_all
  from after_loops_absent_unobserved[of devs m arp_store dhcp_store env now, OF n o]
  have "snd (detect_new_devices env now arp_store dhcp_store devs) m = None"
    by (simp add: detect_snd evict_apply)
  with assms show False by simp
qed

lemma keys_upper_detect:
  assumes "keys_upper devs"
  shows "keys_upper (snd (detect_new_devices env now arp_store dhcp_store devs))"
  unfolding keys_upper_def
proof (intro allI impI)
  fix k
  assume "snd (detect_new_devices env now arp_store dhcp_store devs) k \<noteq> None"
  from detect_keys[OF this] show "upper k = k"
  proof
    assume "devs k \<noteq> None" with assms show ?thesis by (simp add: keys_upper_def)
  next
    assume "k \<in> observed_macs arp_store dhcp_store"
    then show ?thesis by (auto simp: observed_macs_def observed_upper)
  qed
qed

lemma find_append_None:
  "find P xs = None \<Longrightarrow> find P (xs @ ys) = find P ys"
  by (induction xs) (auto split: if_splits)

lemma find_exact_None:
  "find (same_mac_upper mac) store = None \<Longrightarrow>
   find (\<lambda>device. md_mac_address device = Some mac) store = None"
  by (induction store) (auto simp: same_mac_upper_def split: if_splits)

lemma promote_absent: "devs mac = None \<Longrightarrow>
  add_to_monitored_devices new_id strftime mac site_id devs store = (None, store)"
  by (simp add: add_to_monitored_devices_def)

lemma promote_existing:
  "devs mac = Some info \<Longrightarrow> find (same_mac_upper mac) store = Some dev \<Longrightarrow>
   add_to_monitored_devices new_id strftime mac site_id devs store = (md_id dev, store)"
  by (simp add: add_to_monitored_devices_def get_devices_def)

lemma promote_new:
  assumes "devs mac = Some info" "find (same_mac_upper mac) store = None"
  shows "add_to_monitored_devices new_id strftime mac site_id devs store =
           (Some (new_id store),
            store @ [promoted_record new_id strftime info mac site_id store])"
proof -
  have e: "find (\<lambda>device. md_mac_address device = Some mac) store = None"
    using assms(2) by (rule find_exact_None)
  show ?thesis
    using assms
    by (simp add: add_to_monitored_devices_def get_devices_def add_device_def Let_def
        find_append_None[OF e] promoted_record_def new_monitored_device_def)
qed

lemma promoted_record_matches:
  "same_mac_upper mac (promoted_record new_id strftime info mac site_id store)"
  by (simp add: promoted_record_def new_monitored_device_def same_mac_upper_def)

lemma detect_observed:
  assumes obs: "m \<in> observed_macs arp_store dhcp_store"
  shows "snd (detect_new_devices env now arp_store dhcp_store devs) m \<noteq> None"
proof (cases "devs m")
  case None
  from after_loops_absent_observed[of devs m arp_store dhcp_store env now, OF None obs]
  obtain d2 where "devices (after_loops env now arp_store dhcp_store devs) m = Some d2"
    by blast
  from detect_kept[OF this obs] show ?thesis by simp
next
  case (Some d)
  from after_loops_present[of devs m d env now arp_store dhcp_store] Some
  obtain d2 where "devices (after_loops env now arp_store dhcp_store devs) m = Some d2"
    by blast
  from detect_kept[OF this obs] show ?thesis by simp
qed

lemma upper_mac0: "upper mac0 = key0"
  unfolding mac0_def key0_def by code_simp

lemma upper_key0: "upper key0 = key0"
  unfolding key0_def by code_simp

lemma mac0_not_key0: "mac0 \<noteq> key0"
  by (simp add: mac0_def key0_def)

lemma observed_arp0: "observed_macs arp0 [] = {key0}"
  by (simp add: observed_macs_def observed_def get_all_arp_entries_def get_all_dhcp_leases_def
      arp0_def entry0_def mac0_nonempty upper_mac0)

lemma observed_dhcp0: "observed_macs [] dhcp0 = {key0}"
  by (simp add: observed_macs_def observed_def get_all_arp_entries_def get_all_dhcp_leases_def
      dhcp0_def lease0_def mac0_nonempty upper_mac0)

lemma observed_none: "observed_macs [] [] = {}"
  by (simp add: observed_macs_def observed_def get_all_arp_entries_def get_all_dhcp_leases_def)

lemma lease_sets_hostname:
  "map_option hostname (snd (detect_new_devices (denv_at 0) 1000 [] dhcp0 [key0 \<mapsto> device0]) key0)
     = Some ''laptop''"
  by (simp add: detect_new_devices_def get_all_arp_entries_def get_all_dhcp_leases_def dhcp0_def
      lease0_def process_dhcp_def mac0_nonempty upper_mac0 Let_def device0_def refresh_is_new_def
      evict_def)

subsection \<open>First sight and novelty\<close>

text \<open>
  C2. In a pass at time \<open>now\<close>, for a record that exists under the key \<open>m\<close> when the
  pass starts: if the record is still there after the pass, its \<open>first_seen\<close> is what it
  was; and if \<open>m\<close> is observed in the pass, by either feed and any number of times, the
  record is there after the pass with the same \<open>first_seen\<close>, with \<open>last_seen = now\<close> and
  with \<open>is_new\<close> equal to \<open>(now - first_seen) < 300\<close> seconds. For a key with no record that
  is observed in the pass, the record made has the clock reading taken at its creation as
  \<open>first_seen\<close>, and its \<open>is_new\<close> equals \<open>(last_seen - first_seen) < 300\<close> seconds, where
  \<open>last_seen\<close> is the time of its latest observation.
\<close>

theorem first_seen_kept:
  "(\<forall>d. devs m = Some d \<longrightarrow>
      (\<forall>d'. snd (detect_new_devices env now arp_store dhcp_store devs) m = Some d' \<longrightarrow>
            first_seen d' = first_seen d) \<and>
      (m \<in> observed_macs arp_store dhcp_store \<longrightarrow>
         (\<exists>d'. snd (detect_new_devices env now arp_store dhcp_store devs) m = Some d' \<and>
               first_seen d' = first_seen d \<and> last_seen d' = now \<and>
               is_new d' = (total_seconds (now - first_seen d) < 300)))) \<and>
   (devs m = None \<and> m \<in> observed_macs arp_store dhcp_store \<longrightarrow>
      (\<exists>d'. snd (detect_new_devices env now arp_store dhcp_store devs) m = Some d' \<and>
            first_seen d' = datetime_now env m \<and>
            is_new d' = (total_seconds (last_seen d' - first_seen d') < 300)))"
proof (intro conjI allI impI)
  fix d d'
  assume d: "devs m = Some d"
    and d': "snd (detect_new_devices env now arp_store dhcp_store devs) m = Some d'"
  from after_loops_present[of devs m d env now arp_store dhcp_store] d obtain d2 where
    "devices (after_loops env now arp_store dhcp_store devs) m = Some d2"
    "first_seen d2 = first_seen d" by blast
  with detect_from_loops[OF d'] show "first_seen d' = first_seen d" by simp
next
  fix d
  assume d: "devs m = Some d" and obs: "m \<in> observed_macs arp_store dhcp_store"
  from after_loops_present[of devs m d env now arp_store dhcp_store] d obtain d2 where d2:
    "devices (after_loops env now arp_store dhcp_store devs) m = Some d2"
    "first_seen d2 = first_seen d"
    "if m \<in> observed_macs arp_store dhcp_store
            then last_seen d2 = now \<and>
                 is_new d2 = (total_seconds (now - first_seen d) < NEW_DEVICE_THRESHOLD)
            else d2 = d" by blast
  from d2(3) obs have "last_seen d2 = now"
    "is_new d2 = (total_seconds (now - first_seen d) < 300)"
    by (simp_all add: NEW_DEVICE_THRESHOLD_def)
  with detect_kept[OF d2(1) obs] d2(2)
  show "\<exists>d'. snd (detect_new_devices env now arp_store dhcp_store devs) m = Some d' \<and>
               first_seen d' = first_seen d \<and> last_seen d' = now \<and>
               is_new d' = (total_seconds (now - first_seen d) < 300)"
    by blast
next
  assume a: "devs m = None \<and> m \<in> observed_macs arp_store dhcp_store"
  then have n: "devs m = None" and obs: "m \<in> observed_macs arp_store dhcp_store" by simp_all
  from after_loops_absent_observed[of devs m arp_store dhcp_store env now, OF n obs] obtain d2 where d2:
    "devices (after_loops env now arp_store dhcp_store devs) m = Some d2"
    "first_seen d2 = datetime_now env m"
    "is_new d2 = (total_seconds (last_seen d2 - first_seen d2) < NEW_DEVICE_THRESHOLD)" by blast
  from d2(3) have "is_new d2 = (total_seconds (last_seen d2 - first_seen d2) < 300)"
    by (simp add: NEW_DEVICE_THRESHOLD_def)
  with detect_kept[OF d2(1) obs] d2(2)
  show "\<exists>d'. snd (detect_new_devices env now arp_store dhcp_store devs) m = Some d' \<and>
            first_seen d' = datetime_now env m \<and>
            is_new d' = (total_seconds (last_seen d' - first_seen d') < 300)"
    by blast
qed

theorem first_seen_kept_witness:
  "(\<exists>d'. snd (detect_new_devices (denv_at 0) 301000000 arp0 [] [key0 \<mapsto> device0]) key0 = Some d' \<and>
         first_seen d' = 0 \<and> last_seen d' = 301000000 \<and> is_new d' = False) \<and>
   (\<exists>d'. snd (detect_new_devices (denv_at 5) 0 arp0 [] Map.empty) key0 = Some d' \<and>
         first_seen d' = 5 \<and>
         is_new d' = (total_seconds (last_seen d' - first_seen d') < 300))"
proof -
  have o: "key0 \<in> observed_macs arp0 []" by (simp add: observed_arp0)
  have p: "[key0 \<mapsto> device0] key0 = Some device0" by simp
  have q: "Map.empty key0 = (None :: discovered_device option)" by simp
  from first_seen_kept[of "[key0 \<mapsto> device0]" key0 "denv_at 0" 301000000 arp0 "[]"] o p
  have "\<exists>d'. snd (detect_new_devices (denv_at 0) 301000000 arp0 [] [key0 \<mapsto> device0]) key0 = Some d' \<and>
               first_seen d' = first_seen device0 \<and> last_seen d' = 301000000 \<and>
               is_new d' = (total_seconds (301000000 - first_seen device0) < 300)"
    by blast
  then have a: "\<exists>d'. snd (detect_new_devices (denv_at 0) 301000000 arp0 [] [key0 \<mapsto> device0]) key0 = Some d' \<and>
         first_seen d' = 0 \<and> last_seen d' = 301000000 \<and> is_new d' = False"
    by (simp add: device0_def total_seconds_def)
  from first_seen_kept[of Map.empty key0 "denv_at 5" 0 arp0 "[]"] o q
  have "\<exists>d'. snd (detect_new_devices (denv_at 5) 0 arp0 [] Map.empty) key0 = Some d' \<and>
            first_seen d' = datetime_now (denv_at 5) key0 \<and>
            is_new d' = (total_seconds (last_seen d' - first_seen d') < 300)"
    by blast
  then have b: "\<exists>d'. snd (detect_new_devices (denv_at 5) 0 arp0 [] Map.empty) key0 = Some d' \<and>
         first_seen d' = 5 \<and>
         is_new d' = (total_seconds (last_seen d' - first_seen d') < 300)"
    by (simp add: denv_at_def)
  from a b show ?thesis by blast
qed

subsection \<open>Hostnames\<close>

text \<open>
  C3. In a pass, for a record that exists under the key \<open>m\<close> before and after: its hostname
  is unchanged, or it was empty and is now the non-empty hostname of a lease of this pass
  for \<open>m\<close>; when no lease of the pass is for \<open>m\<close> (the MAC is seen by ARP only, or not at
  all) the hostname is unchanged, so a hostname learned from a lease survives. A record
  that the pass creates for a MAC that no lease reports has the empty hostname.
\<close>

theorem hostname_from_lease_only:
  "(\<forall>d d'. devs m = Some d \<and>
            snd (detect_new_devices env now arp_store dhcp_store devs) m = Some d' \<longrightarrow>
      (hostname d' = hostname d \<or>
       (hostname d = [] \<and> hostname d' \<in> lease_names m (get_all_dhcp_leases dhcp_store))) \<and>
      (m \<notin> observed (get_all_dhcp_leases dhcp_store) \<longrightarrow> hostname d' = hostname d)) \<and>
   (\<forall>d'. devs m = None \<and>
         snd (detect_new_devices env now arp_store dhcp_store devs) m = Some d' \<and>
         m \<notin> observed (get_all_dhcp_leases dhcp_store) \<longrightarrow> hostname d' = [])"
proof (intro conjI allI impI)
  fix d d'
  assume a: "devs m = Some d \<and>
            snd (detect_new_devices env now arp_store dhcp_store devs) m = Some d'"
  from after_loops_present[of devs m d env now arp_store dhcp_store] a obtain d2 where d2:
    "devices (after_loops env now arp_store dhcp_store devs) m = Some d2"
    "hostname d2 = hostname d \<or>
            (hostname d = [] \<and> hostname d2 \<in> lease_names m (get_all_dhcp_leases dhcp_store))"
    by blast
  have eq: "d' = d2" using a d2(1) detect_from_loops[of env now arp_store dhcp_store devs m d']
    by simp
  show h: "hostname d' = hostname d \<or>
       (hostname d = [] \<and> hostname d' \<in> lease_names m (get_all_dhcp_leases dhcp_store))"
    using d2(2) eq by simp
  show "hostname d' = hostname d" if "m \<notin> observed (get_all_dhcp_leases dhcp_store)"
    using h that lease_names_observed by blast
next
  fix d'
  assume a: "devs m = None \<and>
         snd (detect_new_devices env now arp_store dhcp_store devs) m = Some d' \<and>
         m \<notin> observed (get_all_dhcp_leases dhcp_store)"
  then have n: "devs m = None" and nl: "m \<notin> observed (get_all_dhcp_leases dhcp_store)"
    and l: "devices (after_loops env now arp_store dhcp_store devs) m = Some d'"
    by (simp_all add: detect_from_loops)
  show "hostname d' = []"
  proof (cases "m \<in> observed_macs arp_store dhcp_store")
    case True
    from after_loops_absent_observed[of devs m arp_store dhcp_store env now, OF n True] obtain d2 where
      "devices (after_loops env now arp_store dhcp_store devs) m = Some d2"
      "m \<notin> observed (get_all_dhcp_leases dhcp_store) \<longrightarrow> hostname d2 = []" by blast
    with l nl show ?thesis by simp
  next
    case False
    from after_loops_absent_unobserved[of devs m arp_store dhcp_store env now, OF n False] l show ?thesis by simp
  qed
qed

theorem hostname_from_lease_only_witness:
  "(\<exists>d'. snd (detect_new_devices (denv_at 0) 1000 arp0 [] [key0 \<mapsto> named0]) key0 = Some d' \<and>
         hostname d' = ''laptop'') \<and>
   map_option hostname (snd (detect_new_devices (denv_at 0) 1000 [] dhcp0 [key0 \<mapsto> device0]) key0)
     = Some ''laptop''"
proof -
  have o: "key0 \<in> observed_macs arp0 []" by (simp add: observed_arp0)
  have p: "[key0 \<mapsto> named0] key0 = Some named0" by simp
  have nl: "key0 \<notin> observed (get_all_dhcp_leases [])"
    by (simp add: get_all_dhcp_leases_def observed_def)
  from after_loops_present[of "[key0 \<mapsto> named0]" key0 named0 "denv_at 0" 1000 arp0 "[]"] p
  obtain d2 where "devices (after_loops (denv_at 0) 1000 arp0 [] [key0 \<mapsto> named0]) key0 = Some d2"
    by blast
  from detect_kept[OF this o]
  have d2: "snd (detect_new_devices (denv_at 0) 1000 arp0 [] [key0 \<mapsto> named0]) key0 = Some d2" .
  from hostname_from_lease_only[of "[key0 \<mapsto> named0]" key0 "denv_at 0" 1000 arp0 "[]"] p d2 nl
  have "hostname d2 = hostname named0" by blast
  then have "hostname d2 = ''laptop''" by (simp add: named0_def)
  with d2 lease_sets_hostname show ?thesis by blast
qed

subsection \<open>Eviction and reappearance\<close>

text \<open>
  C4. At the end of a pass at time \<open>now\<close>, a record that existed under the key \<open>m\<close> when
  the pass started is gone exactly when its \<open>last_seen\<close> is more than 24 hours
  (86,400,000,000 microseconds) before \<open>now\<close> and \<open>m\<close> was not observed in the pass. A key
  with no record (never seen, or evicted by an earlier pass) that the pass observes gets a
  new record, whose \<open>first_seen\<close> is the clock reading taken when it is built.
\<close>

theorem eviction_rule:
  "(\<forall>d. devs m = Some d \<longrightarrow>
      (snd (detect_new_devices env now arp_store dhcp_store devs) m = None \<longleftrightarrow>
         last_seen d < now - 86400000000 \<and> m \<notin> observed_macs arp_store dhcp_store)) \<and>
   (devs m = None \<and> m \<in> observed_macs arp_store dhcp_store \<longrightarrow>
      (\<exists>d'. snd (detect_new_devices env now arp_store dhcp_store devs) m = Some d' \<and>
            mac_address d' = m \<and> first_seen d' = datetime_now env m))"
proof (intro conjI allI impI)
  fix d
  assume d: "devs m = Some d"
  from after_loops_present[of devs m d env now arp_store dhcp_store] d obtain d2 where d2:
    "devices (after_loops env now arp_store dhcp_store devs) m = Some d2"
    "if m \<in> observed_macs arp_store dhcp_store
            then last_seen d2 = now \<and>
                 is_new d2 = (total_seconds (now - first_seen d) < NEW_DEVICE_THRESHOLD)
            else d2 = d" by blast
  show "snd (detect_new_devices env now arp_store dhcp_store devs) m = None \<longleftrightarrow>
         last_seen d < now - 86400000000 \<and> m \<notin> observed_macs arp_store dhcp_store"
  proof (cases "m \<in> observed_macs arp_store dhcp_store")
    case True
    with detect_kept[OF d2(1) True] show ?thesis by simp
  next
    case False
    with d2(2) have "d2 = d" by simp
    with d2(1) False show ?thesis
      by (simp add: detect_snd evict_apply after_loops_cur timedelta_days_def)
  qed
next
  assume a: "devs m = None \<and> m \<in> observed_macs arp_store dhcp_store"
  then have n: "devs m = None" and obs: "m \<in> observed_macs arp_store dhcp_store" by simp_all
  from after_loops_absent_observed[of devs m arp_store dhcp_store env now, OF n obs] obtain d2 where d2:
    "devices (after_loops env now arp_store dhcp_store devs) m = Some d2"
    "first_seen d2 = datetime_now env m" "mac_address d2 = m" by blast
  with detect_kept[OF d2(1) obs]
  show "\<exists>d'. snd (detect_new_devices env now arp_store dhcp_store devs) m = Some d' \<and>
            mac_address d' = m \<and> first_seen d' = datetime_now env m"
    by blast
qed

theorem eviction_rule_witness:
  "snd (detect_new_devices (denv_at 0) 90000000000 [] [] [key0 \<mapsto> device0]) key0 = None \<and>
   snd (detect_new_devices (denv_at 0) 90000000000 arp0 [] [key0 \<mapsto> device0]) key0 \<noteq> None \<and>
   (\<exists>d'. snd (detect_new_devices (denv_at 93600000000) 93600000000 arp0 []
              (snd (detect_new_devices (denv_at 0) 90000000000 [] [] [key0 \<mapsto> device0]))) key0
            = Some d' \<and>
         mac_address d' = key0 \<and> first_seen d' = 93600000000)"
proof -
  have o: "key0 \<in> observed_macs arp0 []" by (simp add: observed_arp0)
  have p: "[key0 \<mapsto> device0] key0 = Some device0" by simp
  from eviction_rule[of "[key0 \<mapsto> device0]" key0 "denv_at 0" 90000000000 "[]" "[]"] p
  have a: "snd (detect_new_devices (denv_at 0) 90000000000 [] [] [key0 \<mapsto> device0]) key0 = None"
    by (simp add: observed_none device0_def)
  from eviction_rule[of "[key0 \<mapsto> device0]" key0 "denv_at 0" 90000000000 arp0 "[]"] p o
  have b: "snd (detect_new_devices (denv_at 0) 90000000000 arp0 [] [key0 \<mapsto> device0]) key0 \<noteq> None"
    by simp
  from eviction_rule[of "snd (detect_new_devices (denv_at 0) 90000000000 [] [] [key0 \<mapsto> device0])"
      key0 "denv_at 93600000000" 93600000000 arp0 "[]"] a o
  have c: "\<exists>d'. snd (detect_new_devices (denv_at 93600000000) 93600000000 arp0 []
              (snd (detect_new_devices (denv_at 0) 90000000000 [] [] [key0 \<mapsto> device0]))) key0
            = Some d' \<and>
         mac_address d' = key0 \<and> first_seen d' = datetime_now (denv_at 93600000000) key0"
    by blast
  then have "\<exists>d'. snd (detect_new_devices (denv_at 93600000000) 93600000000 arp0 []
              (snd (detect_new_devices (denv_at 0) 90000000000 [] [] [key0 \<mapsto> device0]))) key0
            = Some d' \<and>
         mac_address d' = key0 \<and> first_seen d' = 93600000000"
    by (simp add: denv_at_def)
  with a b show ?thesis by blast
qed

subsection \<open>Promotion\<close>

text \<open>
  C5. For a MAC that is a key of the inventory: when the monitored set has a device whose
  MAC equals it up to case, \<^verbatim>\<open>add_to_monitored_devices\<close> returns the identifier of the
  first such device and leaves the store as it is; when it has none, the store gains
  exactly one record, disabled and with this MAC, whose identifier is returned; and a
  second call with the same arguments on the resulting store returns the same identifier
  and leaves that store as it is. So two calls add one record when the MAC was not
  monitored before, and none when it was.
\<close>

theorem promote_idempotent:
  assumes "devs mac = Some info"
  shows "(\<forall>dev. find (same_mac_upper mac) store = Some dev \<longrightarrow>
            add_to_monitored_devices new_id strftime mac site_id devs store = (md_id dev, store)) \<and>
         (find (same_mac_upper mac) store = None \<longrightarrow>
            (\<exists>dev. snd (add_to_monitored_devices new_id strftime mac site_id devs store) = store @ [dev] \<and>
                   md_mac_address dev = Some mac \<and> \<not> md_enabled dev \<and>
                   fst (add_to_monitored_devices new_id strftime mac site_id devs store) = md_id dev)) \<and>
         add_to_monitored_devices new_id strftime mac site_id devs
             (snd (add_to_monitored_devices new_id strftime mac site_id devs store)) =
           (fst (add_to_monitored_devices new_id strftime mac site_id devs store),
            snd (add_to_monitored_devices new_id strftime mac site_id devs store))"
proof (intro conjI allI impI)
  fix dev
  assume "find (same_mac_upper mac) store = Some dev"
  with assms show "add_to_monitored_devices new_id strftime mac site_id devs store = (md_id dev, store)"
    by (simp add: add_to_monitored_devices_def get_devices_def)
next
  assume n: "find (same_mac_upper mac) store = None"
  let ?r = "promoted_record new_id strftime info mac site_id store"
  have "snd (add_to_monitored_devices new_id strftime mac site_id devs store) = store @ [?r] \<and>
        md_mac_address ?r = Some mac \<and> \<not> md_enabled ?r \<and>
        fst (add_to_monitored_devices new_id strftime mac site_id devs store) = md_id ?r"
    by (simp add: promote_new[of devs mac info store new_id strftime site_id, OF assms n] promoted_record_def new_monitored_device_def)
  then show "\<exists>dev. snd (add_to_monitored_devices new_id strftime mac site_id devs store) = store @ [dev] \<and>
                   md_mac_address dev = Some mac \<and> \<not> md_enabled dev \<and>
                   fst (add_to_monitored_devices new_id strftime mac site_id devs store) = md_id dev"
    by blast
next
  show "add_to_monitored_devices new_id strftime mac site_id devs
             (snd (add_to_monitored_devices new_id strftime mac site_id devs store)) =
           (fst (add_to_monitored_devices new_id strftime mac site_id devs store),
            snd (add_to_monitored_devices new_id strftime mac site_id devs store))"
  proof (cases "find (same_mac_upper mac) store")
    case None
    let ?r = "promoted_record new_id strftime info mac site_id store"
    have f: "find (same_mac_upper mac) (store @ [?r]) = Some ?r"
      by (simp add: find_append_None[OF None] promoted_record_matches)
    have e1: "add_to_monitored_devices new_id strftime mac site_id devs store =
                (Some (new_id store), store @ [?r])"
      by (rule promote_new[of devs mac info store new_id strftime site_id, OF assms None])
    have e2: "add_to_monitored_devices new_id strftime mac site_id devs (store @ [?r]) =
                (md_id ?r, store @ [?r])"
      by (rule promote_existing[of devs mac info "store @ [?r]" ?r new_id strftime site_id,
            OF assms f])
    have e3: "md_id ?r = Some (new_id store)" by (simp add: promoted_record_def)
    show ?thesis by (simp only: e1 e2 e3 fst_conv snd_conv)
  next
    case (Some dev)
    then show ?thesis by (simp add: promote_existing[of devs mac info store dev new_id strftime site_id, OF assms Some])
  qed
qed

theorem promote_idempotent_witness:
  "(\<exists>dev. snd (promote0 key0 [key0 \<mapsto> device0] []) = [dev] \<and>
          md_mac_address dev = Some key0 \<and> \<not> md_enabled dev \<and>
          fst (promote0 key0 [key0 \<mapsto> device0] []) = md_id dev) \<and>
   promote0 key0 [key0 \<mapsto> device0] (snd (promote0 key0 [key0 \<mapsto> device0] [])) =
     (fst (promote0 key0 [key0 \<mapsto> device0] []), snd (promote0 key0 [key0 \<mapsto> device0] [])) \<and>
   promote0 key0 [key0 \<mapsto> device0] [monitored0] = (Some ''dev-7'', [monitored0])"
proof -
  have p: "[key0 \<mapsto> device0] key0 = Some device0" by simp
  have f0: "find (same_mac_upper key0) [] = None" by simp
  have f1: "find (same_mac_upper key0) [monitored0] = Some monitored0"
    by (simp add: same_mac_upper_def monitored0_def upper_mac0 upper_key0)
  note t = promote_idempotent[where devs = "[key0 \<mapsto> device0]" and mac = key0
      and info = device0 and new_id = "\<lambda>store. ''dev-1''"
      and strftime = "\<lambda>t. ''01/01/1970 00:00:00''" and site_id = "''site1''", OF p]
  from t[of "[]"] f0
  have a: "(\<exists>dev. snd (promote0 key0 [key0 \<mapsto> device0] []) = [] @ [dev] \<and>
          md_mac_address dev = Some key0 \<and> \<not> md_enabled dev \<and>
          fst (promote0 key0 [key0 \<mapsto> device0] []) = md_id dev) \<and>
     promote0 key0 [key0 \<mapsto> device0] (snd (promote0 key0 [key0 \<mapsto> device0] [])) =
     (fst (promote0 key0 [key0 \<mapsto> device0] []), snd (promote0 key0 [key0 \<mapsto> device0] []))"
    unfolding promote0_def by blast
  from t[of "[monitored0]"] f1
  have "promote0 key0 [key0 \<mapsto> device0] [monitored0] = (md_id monitored0, [monitored0])"
    unfolding promote0_def by blast
  then have b: "promote0 key0 [key0 \<mapsto> device0] [monitored0] = (Some ''dev-7'', [monitored0])"
    by (simp add: monitored0_def)
  from a b show ?thesis by simp
qed

subsection \<open>The spelling of the MAC\<close>

lemma upper_plain: "upper ''aabbcc001122'' = ''AABBCC001122''"
  by code_simp

lemma observed_arp2: "observed_macs arp2 [] = {key0, ''AABBCC001122''}"
  by (simp add: observed_macs_def observed_def get_all_arp_entries_def get_all_dhcp_leases_def
      arp2_def entry0_def entry_plain_def mac0_nonempty upper_mac0 upper_plain)

text \<open>
  C10. The claim: for a MAC that is in the inventory, every differently-cased or
  differently-formatted spelling of it gives \<^verbatim>\<open>None\<close>. The test is verbatim, so a
  spelling in another format is found when that very string is a key too: after one pass
  over two ARP records of one address, one with colons and one without, the inventory has
  a record under \<open>key0\<close>, and the promotion of the spelling without separators adds a
  device and returns its identifier.
\<close>

theorem other_format_promoted:
  "inventory2 key0 \<noteq> None \<and> fst (promote0 ''AABBCC001122'' inventory2 []) = Some ''dev-1''"
proof -
  have a: "inventory2 key0 \<noteq> None"
    unfolding inventory2_def by (rule detect_observed) (simp add: observed_arp2)
  have "inventory2 ''AABBCC001122'' \<noteq> None"
    unfolding inventory2_def by (rule detect_observed) (simp add: observed_arp2)
  then obtain info where i: "inventory2 ''AABBCC001122'' = Some info" by blast
  have f: "find (same_mac_upper ''AABBCC001122'') [] = None" by simp
  have "promote0 ''AABBCC001122'' inventory2 [] =
          (Some ''dev-1'',
           [] @ [promoted_record (\<lambda>store. ''dev-1'') (\<lambda>t. ''01/01/1970 00:00:00'') info
                   ''AABBCC001122'' ''site1'' []])"
    unfolding promote0_def
    by (rule promote_new[where devs = inventory2 and mac = "''AABBCC001122''" and info = info
          and store = "[]" and new_id = "\<lambda>store. ''dev-1''", OF i f])
  with a show ?thesis by simp
qed

text \<open>
  C10, as amended. The membership test of \<^verbatim>\<open>add_to_monitored_devices\<close> is verbatim: a
  string that is not itself a key of the inventory gives \<^verbatim>\<open>None\<close> and leaves the store
  as it is, whatever keys the inventory has. The keys that a pass adds are the MAC strings
  of the records of the feeds, upper-cased, separators kept: every record of either feed
  with a non-empty MAC has a record under that key after the pass, and an inventory whose
  keys are all upper-case (the empty one, to begin with) stays so. Hence, on such an
  inventory, every spelling with a lower-case letter gives \<^verbatim>\<open>None\<close>, and so does a
  spelling in another format unless that very string is a key as well.
\<close>

theorem promote_verbatim:
  "(devs mac = None \<longrightarrow>
      add_to_monitored_devices new_id strftime mac site_id devs store = (None, store)) \<and>
   (keys_upper devs \<and> upper mac \<noteq> mac \<longrightarrow>
      add_to_monitored_devices new_id strftime mac site_id devs store = (None, store)) \<and>
   (keys_upper devs \<longrightarrow>
      keys_upper (snd (detect_new_devices env now arp_store dhcp_store devs))) \<and>
   (\<forall>e \<in> set (get_all_arp_entries arp_store). e_mac_address e \<noteq> [] \<longrightarrow>
      snd (detect_new_devices env now arp_store dhcp_store devs) (upper (e_mac_address e)) \<noteq> None) \<and>
   (\<forall>l \<in> set (get_all_dhcp_leases dhcp_store). e_mac_address l \<noteq> [] \<longrightarrow>
      snd (detect_new_devices env now arp_store dhcp_store devs) (upper (e_mac_address l)) \<noteq> None)"
proof (intro conjI impI ballI)
  assume "devs mac = None"
  then show "add_to_monitored_devices new_id strftime mac site_id devs store = (None, store)"
    by (simp add: add_to_monitored_devices_def)
next
  assume a: "keys_upper devs \<and> upper mac \<noteq> mac"
  then have "devs mac = None" by (auto simp: keys_upper_def)
  then show "add_to_monitored_devices new_id strftime mac site_id devs store = (None, store)"
    by (simp add: add_to_monitored_devices_def)
next
  assume "keys_upper devs"
  then show "keys_upper (snd (detect_new_devices env now arp_store dhcp_store devs))"
    by (rule keys_upper_detect)
next
  fix e
  assume "e \<in> set (get_all_arp_entries arp_store)" and "e_mac_address e \<noteq> []"
  then have "upper (e_mac_address e) \<in> observed_macs arp_store dhcp_store"
    by (auto simp: observed_macs_def observed_iff)
  then show "snd (detect_new_devices env now arp_store dhcp_store devs) (upper (e_mac_address e))
               \<noteq> None"
    by (rule detect_observed)
next
  fix l
  assume "l \<in> set (get_all_dhcp_leases dhcp_store)" and "e_mac_address l \<noteq> []"
  then have "upper (e_mac_address l) \<in> observed_macs arp_store dhcp_store"
    by (auto simp: observed_macs_def observed_iff)
  then show "snd (detect_new_devices env now arp_store dhcp_store devs) (upper (e_mac_address l))
               \<noteq> None"
    by (rule detect_observed)
qed

theorem promote_verbatim_witness:
  "keys_upper inventory1 \<and> inventory1 key0 \<noteq> None \<and>
   promote0 mac0 inventory1 [] = (None, []) \<and>
   promote0 ''AABBCC001122'' inventory1 [] = (None, [])"
proof -
  have ku: "keys_upper Map.empty" by (simp add: keys_upper_def)
  note t = promote_verbatim[of _ _ "\<lambda>store. ''dev-1''" "\<lambda>t. ''01/01/1970 00:00:00''" "''site1''" "[]"]
  from t[of Map.empty mac0 "denv_at 5" 0 arp0 "[]"] ku
  have a: "keys_upper inventory1" unfolding inventory1_def by blast
  have e: "entry0 \<in> set (get_all_arp_entries arp0)"
    by (simp add: get_all_arp_entries_def arp0_def)
  have ne: "e_mac_address entry0 \<noteq> []" by (simp add: entry0_def mac0_nonempty)
  from t[of Map.empty mac0 "denv_at 5" 0 arp0 "[]"] e ne
  have "inventory1 (upper (e_mac_address entry0)) \<noteq> None" unfolding inventory1_def by blast
  then have b: "inventory1 key0 \<noteq> None" by (simp add: entry0_def upper_mac0)
  have "upper mac0 \<noteq> mac0" by (simp add: upper_mac0 mac0_not_key0[symmetric])
  with t[of inventory1 mac0 "denv_at 5" 0 arp0 "[]"] a
  have c: "promote0 mac0 inventory1 [] = (None, [])" unfolding promote0_def by blast
  have "inventory1 ''AABBCC001122'' = None"
  proof (rule ccontr)
    assume "inventory1 ''AABBCC001122'' \<noteq> None"
    then have "Map.empty ''AABBCC001122'' \<noteq> (None :: discovered_device option) \<or>
               ''AABBCC001122'' \<in> observed_macs arp0 []"
      unfolding inventory1_def by (rule detect_keys)
    then show False by (simp add: observed_arp0 key0_def)
  qed
  with t[of inventory1 "''AABBCC001122''" "denv_at 5" 0 arp0 "[]"]
  have d: "promote0 ''AABBCC001122'' inventory1 [] = (None, [])" unfolding promote0_def by blast
  from a b c d show ?thesis by simp
qed

subsection \<open>The probe of a host\<close>




end
